theory Spec2Isabelle
  imports Main "HOL-Library.Word"
begin

section \<open>The e-paper calendar firmware: panel driver, channel streaming, update sequence\<close>

text \<open>
  The firmware talks to two things: the e-paper panel (a reset line, a busy line and a
  bit-banged serial bus that carries command bytes and data bytes) and an HTTP server
  (one GET per colour channel, then a byte stream). Both are modelled by one trace of
  events, in the order the sketch performs them; every function takes the trace so far
  and returns the extended trace (explicit state passing). Serial diagnostics and
  delays are not recorded.
\<close>

type_synonym byte = "8 word"

datatype event =
    RstPin bool
  | WaitIdle
  | Cmd byte
  | Data byte
  | HttpGet string
  | StreamRead "byte list"

text \<open>\<open>#define TOTAL_BYTES 122880\<close>, compared with \<open>int\<close> and \<open>long\<close> values in the sketch.\<close>

definition TOTAL_BYTES :: int where
  "TOTAL_BYTES = 122880"

text \<open>
  Modelled from the spec: the constant \<open>HTTP_CODE_OK\<close> belongs to the HTTP client
  library, which is not part of the sketches; it is the "success status" of the spec.
\<close>

definition HTTP_CODE_OK :: int where
  "HTTP_CODE_OK = 200"

definition calendar_raw_url :: string where
  "calendar_raw_url = ''http://192.168.11.2:5000/calendar_bw.raw''"

definition calendar_red_url :: string where
  "calendar_red_url = ''http://192.168.11.2:5000/calendar_red.raw''"

subsection \<open>Bus transport and panel driver\<close>

text \<open>
  \<open>EPD_SendCommand\<close> pulls the data/command line low and shifts the byte out,
  \<open>EPD_SendData\<close> pulls it high and shifts the byte out: one \<open>Cmd\<close> or \<open>Data\<close> event.
\<close>

definition EPD_SendCommand :: "byte \<Rightarrow> event list \<Rightarrow> event list" where
  "EPD_SendCommand command tr = tr @ [Cmd command]"

definition EPD_SendData :: "byte \<Rightarrow> event list \<Rightarrow> event list" where
  "EPD_SendData data tr = tr @ [Data data]"

definition EPD_Send_1 :: "byte \<Rightarrow> byte \<Rightarrow> event list \<Rightarrow> event list" where
  "EPD_Send_1 c v1 tr = EPD_SendData v1 (EPD_SendCommand c tr)"

definition EPD_Send_2 :: "byte \<Rightarrow> byte \<Rightarrow> byte \<Rightarrow> event list \<Rightarrow> event list" where
  "EPD_Send_2 c v1 v2 tr = EPD_SendData v2 (EPD_SendData v1 (EPD_SendCommand c tr))"

definition EPD_Send_3 :: "byte \<Rightarrow> byte \<Rightarrow> byte \<Rightarrow> byte \<Rightarrow> event list \<Rightarrow> event list" where
  "EPD_Send_3 c v1 v2 v3 tr =
     EPD_SendData v3 (EPD_SendData v2 (EPD_SendData v1 (EPD_SendCommand c tr)))"

definition EPD_Send_4 ::
  "byte \<Rightarrow> byte \<Rightarrow> byte \<Rightarrow> byte \<Rightarrow> byte \<Rightarrow> event list \<Rightarrow> event list" where
  "EPD_Send_4 c v1 v2 v3 v4 tr =
     EPD_SendData v4 (EPD_SendData v3 (EPD_SendData v2 (EPD_SendData v1 (EPD_SendCommand c tr))))"

text \<open>The reset line goes high, low, high (with settle delays in between).\<close>

definition EPD_Reset :: "event list \<Rightarrow> event list" where
  "EPD_Reset tr = tr @ [RstPin True, RstPin False, RstPin True]"

text \<open>Polling the busy line (capped at 500 polls) writes nothing to the panel.\<close>

definition EPD_WaitUntilIdle :: "event list \<Rightarrow> event list" where
  "EPD_WaitUntilIdle tr = tr @ [WaitIdle]"

text \<open>The same statements, in the same order, in both sketches.\<close>

definition EPD_7in5_V1_Init :: "event list \<Rightarrow> event list" where
  "EPD_7in5_V1_Init tr =
     (let t1 = EPD_Reset tr;
          t2 = EPD_Send_2 0x01 0x37 0x00 t1;
          t3 = EPD_Send_2 0x00 0xCF 0x08 t2;
          t4 = EPD_Send_3 0x06 0xC7 0xCC 0x28 t3;
          t5 = EPD_SendCommand 0x04 t4;
          t6 = EPD_WaitUntilIdle t5;
          t7 = EPD_Send_1 0x30 0x3C t6;
          t8 = EPD_Send_1 0x41 0x00 t7;
          t9 = EPD_Send_1 0x50 0x77 t8;
          t10 = EPD_Send_1 0x60 0x22 t9;
          t11 = EPD_Send_4 0x61 0x02 0x80 0x01 0x80 t10;
          t12 = EPD_Send_1 0x82 0x1E t11;
          t13 = EPD_Send_1 0xE5 0x03 t12
      in EPD_SendCommand 0x10 t13)"

definition EPD_7IN5_V1_Show :: "event list \<Rightarrow> event list" where
  "EPD_7IN5_V1_Show tr = EPD_SendCommand 0x12 tr"

text \<open>
  \<open>for (long i = start; i < TOTAL_BYTES; i++) EPD_SendData(f(i));\<close> is the shape of the
  padding loop, of the red fallback loop and of the two loops of \<open>drawColorPattern\<close>.
\<close>

function send_loop :: "(int \<Rightarrow> byte) \<Rightarrow> int \<Rightarrow> event list \<Rightarrow> event list" where
  "send_loop f i tr = (if i < TOTAL_BYTES then send_loop f (i + 1) (EPD_SendData (f i) tr) else tr)"
  by pat_completeness auto
termination
  by (relation "measure (\<lambda>(f, i, tr). nat (TOTAL_BYTES - i))") auto

declare send_loop.simps [simp del]

subsection \<open>Projections of a trace\<close>

fun data_of :: "event \<Rightarrow> byte list" where
  "data_of (Data b) = [b]"
| "data_of _ = []"

fun cmd_of :: "event \<Rightarrow> byte list" where
  "cmd_of (Cmd c) = [c]"
| "cmd_of _ = []"

fun read_of :: "event \<Rightarrow> byte list" where
  "read_of (StreamRead bs) = bs"
| "read_of _ = []"

fun get_of :: "event \<Rightarrow> string list" where
  "get_of (HttpGet u) = [u]"
| "get_of _ = []"

definition data_bytes :: "event list \<Rightarrow> byte list" where
  "data_bytes tr = concat (map data_of tr)"

definition commands :: "event list \<Rightarrow> byte list" where
  "commands tr = concat (map cmd_of tr)"

definition read_bytes :: "event list \<Rightarrow> byte list" where
  "read_bytes tr = concat (map read_of tr)"

definition requests :: "event list \<Rightarrow> string list" where
  "requests tr = concat (map get_of tr)"

subsection \<open>The channel stream decoder\<close>

text \<open>
  The peer is seen through one poll per iteration of the read loop: what
  \<open>http.connected()\<close> answers, the bytes that reached the receive buffer since the
  previous poll, and what \<open>millis()\<close> reads after the \<open>delay(10)\<close> of an iteration that
  finds nothing available. \<open>stream->available()\<close> is the length of the receive buffer and
  \<open>stream->readBytes(buffer, n)\<close> with \<open>n\<close> at most that length removes its first \<open>n\<close>
  bytes. When the polls are used up the connection is closed: \<open>http.connected()\<close> is
  false from then on.
\<close>

record poll =
  connected :: bool
  arrived :: "byte list"
  millis :: "32 word"

text \<open>
  One HTTP exchange: the status code of \<open>http.GET()\<close>, the value of \<open>http.getSize()\<close>,
  the reading of \<open>millis()\<close> when the read loop starts, and the polls of the body.
\<close>

record http_client =
  httpCode :: int
  getSize :: int
  startTime :: "32 word"
  polls :: "poll list"

text \<open>The local variables of \<open>streamChannelToDisplay\<close>, the receive buffer and the trace.\<close>

record locals =
  rxbuf :: "byte list"
  bytesReceived :: int
  blackBytes :: int
  whiteBytes :: int
  redPrepBytes :: int
  otherBytes :: int
  trace :: "event list"

text \<open>The body of the loop over the bytes of one chunk: classify, count, send.\<close>

definition count_byte :: "byte \<Rightarrow> locals \<Rightarrow> locals" where
  "count_byte dataByte s =
     (if dataByte = 0x00 then s\<lparr>blackBytes := blackBytes s + 1\<rparr>
      else if dataByte = 0x33 then s\<lparr>whiteBytes := whiteBytes s + 1\<rparr>
      else if dataByte = 0xCC then s\<lparr>redPrepBytes := redPrepBytes s + 1\<rparr>
      else s\<lparr>otherBytes := otherBytes s + 1\<rparr>)"

fun send_buffer :: "byte list \<Rightarrow> locals \<Rightarrow> locals" where
  "send_buffer [] s = s"
| "send_buffer (dataByte # rest) s =
     send_buffer rest ((count_byte dataByte s)\<lparr>trace := EPD_SendData dataByte (trace s)\<rparr>)"

datatype loop_exit = TimedOut | Finished

text \<open>
  The branch of the loop body taken when \<open>stream->available()\<close> is positive; \<open>avail\<close> is
  the content of the receive buffer.
\<close>

definition read_chunk :: "int \<Rightarrow> byte list \<Rightarrow> locals \<Rightarrow> locals" where
  "read_chunk expectedBytes avail s =
     (let availableBytes = length avail;
          maxToRead = nat (min (expectedBytes - bytesReceived s)
                               (TOTAL_BYTES - bytesReceived s));
          bytesToRead = min (min availableBytes maxToRead) 1024;
          buffer = take bytesToRead avail;
          s1 = send_buffer buffer
                 (s\<lparr>rxbuf := drop bytesToRead avail,
                    trace := trace s @ [StreamRead buffer]\<rparr>)
      in s1\<lparr>bytesReceived := bytesReceived s1 + int (length buffer)\<rparr>)"

text \<open>The \<open>while\<close> loop, one poll per iteration.\<close>

fun stream_loop :: "int \<Rightarrow> 32 word \<Rightarrow> poll list \<Rightarrow> locals \<Rightarrow> loop_exit \<times> locals" where
  "stream_loop expectedBytes start [] s = (Finished, s)"
| "stream_loop expectedBytes start (p # ps) s =
     (if connected p \<and> bytesReceived s < expectedBytes \<and> bytesReceived s < TOTAL_BYTES then
        (if length (rxbuf s @ arrived p) > 0 then
           stream_loop expectedBytes start ps (read_chunk expectedBytes (rxbuf s @ arrived p) s)
         else if millis p - start > 30000 then (TimedOut, s)
         else stream_loop expectedBytes start ps s)
      else (Finished, s))"

text \<open>The padding step that follows the loop.\<close>

definition pad_channel :: "byte \<Rightarrow> locals \<Rightarrow> locals" where
  "pad_channel channelCommand s =
     (if bytesReceived s < TOTAL_BYTES then
        (if channelCommand = 0x10 then
           (let s1 = s\<lparr>whiteBytes := whiteBytes s + (TOTAL_BYTES - bytesReceived s)\<rparr>
            in s1\<lparr>trace := send_loop (\<lambda>i. 0x33) (bytesReceived s) (trace s1)\<rparr>)
         else s\<lparr>trace := send_loop (\<lambda>i. 0xFF) (bytesReceived s) (trace s)\<rparr>)
      else s)"

text \<open>
  What a call of \<open>streamChannelToDisplay\<close> leaves behind: the returned flag, whether the
  timeout message or the no-black-pixels warning was printed, and the final locals.
\<close>

record stream_result =
  ret :: bool
  timedOut :: bool
  noBlackWarning :: bool
  st :: locals

definition streamChannelToDisplay ::
  "http_client \<Rightarrow> byte \<Rightarrow> int \<Rightarrow> event list \<Rightarrow> stream_result" where
  "streamChannelToDisplay http channelCommand expectedBytes tr =
     (let s0 = \<lparr>rxbuf = [], bytesReceived = 0, blackBytes = 0, whiteBytes = 0,
                redPrepBytes = 0, otherBytes = 0,
                trace = EPD_SendCommand channelCommand tr\<rparr>
      in case stream_loop expectedBytes (startTime http) (polls http) s0 of
           (TimedOut, s) \<Rightarrow>
             \<lparr>ret = False, timedOut = True, noBlackWarning = False, st = s\<rparr>
         | (Finished, s) \<Rightarrow>
             (let s' = pad_channel channelCommand s
              in \<lparr>ret = (bytesReceived s' > 0), timedOut = False,
                  noBlackWarning = (channelCommand = 0x10 \<and> blackBytes s' = 0),
                  st = s'\<rparr>))"

subsection \<open>The update orchestrator\<close>

definition downloadAndStreamBW :: "http_client \<Rightarrow> event list \<Rightarrow> bool \<times> event list" where
  "downloadAndStreamBW http tr =
     (let tr1 = tr @ [HttpGet calendar_raw_url]
      in if httpCode http \<noteq> HTTP_CODE_OK then (False, tr1)
         else (let contentLength = getSize http;
                   r = streamChannelToDisplay http 0x10 contentLength tr1
               in (ret r, trace (st r))))"

definition downloadAndStreamRed :: "http_client \<Rightarrow> event list \<Rightarrow> bool \<times> event list" where
  "downloadAndStreamRed http tr =
     (let tr1 = tr @ [HttpGet calendar_red_url]
      in if httpCode http \<noteq> HTTP_CODE_OK then
           (True, send_loop (\<lambda>i. 0xFF) 0 (EPD_SendCommand 0x13 tr1))
         else (let contentLength = getSize http;
                   r = streamChannelToDisplay http 0x13 contentLength tr1
               in (ret r, trace (st r))))"

text \<open>\<open>wifi\<close> is whether \<open>WiFi.status()\<close> reports a connection.\<close>

definition downloadAndDisplayCalendar ::
  "bool \<Rightarrow> http_client \<Rightarrow> http_client \<Rightarrow> event list \<Rightarrow> bool \<times> event list" where
  "downloadAndDisplayCalendar wifi bw red tr =
     (if \<not> wifi then (False, tr)
      else (let tr1 = EPD_7in5_V1_Init tr;
                (okBW, tr2) = downloadAndStreamBW bw tr1
            in if \<not> okBW then (False, tr2)
               else (let (okRed, tr3) = downloadAndStreamRed red tr2
                     in if \<not> okRed then (False, tr3)
                        else (True, EPD_7IN5_V1_Show tr3))))"

subsection \<open>The pattern demo\<close>

text \<open>\<open>COLOR_BLACK\<close> is 0, \<open>COLOR_WHITE\<close> is 1, \<open>COLOR_RED\<close> is 2; the two switches.\<close>

definition bwValue :: "int \<Rightarrow> byte" where
  "bwValue color = (if color = 0 then 0x00 else if color = 1 then 0x33
                    else if color = 2 then 0xCC else 0x33)"

definition redValue :: "int \<Rightarrow> byte" where
  "redValue color = (if color = 0 then 0x00 else if color = 1 then 0x00
                     else if color = 2 then 0xFF else 0x00)"

definition drawColorPattern :: "(int \<Rightarrow> int) \<Rightarrow> event list \<Rightarrow> event list" where
  "drawColorPattern getPixelColor tr =
     (let t1 = EPD_SendCommand 0x10 tr;
          t2 = send_loop (\<lambda>i. bwValue (getPixelColor i)) 0 t1;
          t3 = EPD_SendCommand 0x13 t2;
          t4 = send_loop (\<lambda>i. redValue (getPixelColor i)) 0 t3
      in EPD_7IN5_V1_Show t4)"

subsection \<open>Example exchanges\<close>

text \<open>A peer that delivers one black, one white and one red-prepare byte, then closes.\<close>

definition short_peer :: http_client where
  "short_peer = \<lparr>httpCode = 200, getSize = 3, startTime = 0,
     polls = [\<lparr>connected = True, arrived = [0x00, 0x33, 0xCC], millis = 5\<rparr>]\<rparr>"

text \<open>A peer that stays connected and sends nothing; the poll is 30001 ms after the start.\<close>

definition silent_peer :: http_client where
  "silent_peer = \<lparr>httpCode = 200, getSize = 122880, startTime = 1000,
     polls = [\<lparr>connected = True, arrived = [], millis = 31001\<rparr>]\<rparr>"

text \<open>A peer that answers 200 and closes the connection without sending a byte.\<close>

definition closed_peer :: http_client where
  "closed_peer = \<lparr>httpCode = 200, getSize = 122880, startTime = 0, polls = []\<rparr>"

text \<open>A peer that answers 404.\<close>

definition failed_peer :: http_client where
  "failed_peer = \<lparr>httpCode = 404, getSize = 0, startTime = 0, polls = []\<rparr>"

text \<open>A peer that declares a content length of zero and then delivers three bytes.\<close>

definition zero_length_peer :: http_client where
  "zero_length_peer = \<lparr>httpCode = 200, getSize = 0, startTime = 0,
     polls = [\<lparr>connected = True, arrived = [1, 2, 3], millis = 5\<rparr>]\<rparr>"

text \<open>
  A peer whose first byte arrives 29 s after the start and that then stays connected
  without sending more; the next poll is 30.01 s after the start.
\<close>

definition late_peer :: http_client where
  "late_peer = \<lparr>httpCode = 200, getSize = 122880, startTime = 0,
     polls = [\<lparr>connected = True, arrived = [], millis = 10000\<rparr>,
              \<lparr>connected = True, arrived = [0x33], millis = 29000\<rparr>,
              \<lparr>connected = True, arrived = [], millis = 30010\<rparr>]\<rparr>"

text \<open>
  A peer whose three bytes, all that it declared, arrive 29 s after the start; the polls
  listed after that are never made.
\<close>

definition late_complete_peer :: http_client where
  "late_complete_peer = \<lparr>httpCode = 200, getSize = 3, startTime = 0,
     polls = [\<lparr>connected = True, arrived = [], millis = 10000\<rparr>,
              \<lparr>connected = True, arrived = [0x00, 0x33, 0xCC], millis = 29000\<rparr>,
              \<lparr>connected = True, arrived = [], millis = 30010\<rparr>]\<rparr>"


text \<open>
  A peer that declares 1026 bytes and delivers 1025 of them together 29 s after the
  start; the chunk cap leaves one byte in the receive buffer, which the poll made 30.01 s
  after the start finds there; then the connection is closed.
\<close>

definition leftover_peer :: http_client where
  "leftover_peer = \<lparr>httpCode = 200, getSize = 1026, startTime = 0,
     polls = [\<lparr>connected = True, arrived = replicate 1025 0x33, millis = 29000\<rparr>,
              \<lparr>connected = True, arrived = [], millis = 30010\<rparr>]\<rparr>"

text \<open>
  The limit as the specification words it: the declared length if present and positive,
  else the target length, and never more than the target length. A missing length is
  any value that is not positive.
\<close>

definition effectiveLimit_spec :: "int \<Rightarrow> int" where
  "effectiveLimit_spec declaredLength =
     min (if declaredLength > 0 then declaredLength else TOTAL_BYTES) TOTAL_BYTES"

section \<open>Auxiliary facts\<close>

subsection \<open>The send loop and the projections\<close>

lemma send_loop_eq:
  "send_loop f i tr = tr @ map (\<lambda>k. Data (f k)) [i..TOTAL_BYTES - 1]"
proof (induction f i tr rule: send_loop.induct)
  case (1 f i tr)
  show ?case
  proof (cases "i < TOTAL_BYTES")
    case True
    then have "[i..TOTAL_BYTES - 1] = i # [i + 1..TOTAL_BYTES - 1]"
      by (simp add: upto_rec1)
    with True 1 show ?thesis
      by (subst send_loop.simps) (simp add: EPD_SendData_def)
  next
    case False
    then show ?thesis
      by (subst send_loop.simps) simp
  qed
qed

lemma send_loop_const:
  "send_loop (\<lambda>i. v) i tr = tr @ replicate (nat (TOTAL_BYTES - i)) (Data v)"
  by (simp add: send_loop_eq map_replicate_const)

lemma data_bytes_simps [simp]:
  "data_bytes [] = []"
  "data_bytes (e # tr) = data_of e @ data_bytes tr"
  "data_bytes (tr @ tr') = data_bytes tr @ data_bytes tr'"
  by (simp_all add: data_bytes_def)

lemma data_bytes_map_Data [simp]: "data_bytes (map (\<lambda>k. Data (f k)) xs) = map f xs"
  by (induction xs) simp_all

lemma data_bytes_replicate [simp]: "data_bytes (replicate n (Data v)) = replicate n v"
  by (induction n) simp_all

lemma commands_simps [simp]:
  "commands [] = []"
  "commands (e # tr) = cmd_of e @ commands tr"
  "commands (tr @ tr') = commands tr @ commands tr'"
  by (simp_all add: commands_def)

lemma commands_map_Data [simp]: "commands (map (\<lambda>k. Data (f k)) xs) = []"
  by (induction xs) simp_all

lemma commands_replicate [simp]: "commands (replicate n (Data v)) = []"
  by (induction n) simp_all

lemma read_bytes_simps [simp]:
  "read_bytes [] = []"
  "read_bytes (e # tr) = read_of e @ read_bytes tr"
  "read_bytes (tr @ tr') = read_bytes tr @ read_bytes tr'"
  by (simp_all add: read_bytes_def)

lemma read_bytes_map_Data [simp]: "read_bytes (map (\<lambda>k. Data (f k)) xs) = []"
  by (induction xs) simp_all

lemma read_bytes_replicate [simp]: "read_bytes (replicate n (Data v)) = []"
  by (induction n) simp_all

lemma requests_simps [simp]:
  "requests [] = []"
  "requests (e # tr) = get_of e @ requests tr"
  "requests (tr @ tr') = requests tr @ requests tr'"
  by (simp_all add: requests_def)

lemma requests_map_Data [simp]: "requests (map (\<lambda>k. Data (f k)) xs) = []"
  by (induction xs) simp_all

lemma requests_replicate [simp]: "requests (replicate n (Data v)) = []"
  by (induction n) simp_all

lemma count_byte_fields [simp]:
  "rxbuf (count_byte b s) = rxbuf s"
  "bytesReceived (count_byte b s) = bytesReceived s"
  "trace (count_byte b s) = trace s"
  by (simp_all add: count_byte_def)

lemma count_byte_sum:
  "blackBytes (count_byte b s) + whiteBytes (count_byte b s) + redPrepBytes (count_byte b s)
     + otherBytes (count_byte b s)
   = blackBytes s + whiteBytes s + redPrepBytes s + otherBytes s + 1"
  by (simp add: count_byte_def)

lemma send_buffer_fields [simp]:
  "rxbuf (send_buffer bs s) = rxbuf s"
  "bytesReceived (send_buffer bs s) = bytesReceived s"
  "trace (send_buffer bs s) = trace s @ map Data bs"
  by (induction bs arbitrary: s) (simp_all add: EPD_SendData_def)

lemma send_buffer_sum:
  "blackBytes (send_buffer bs s) + whiteBytes (send_buffer bs s) + redPrepBytes (send_buffer bs s)
     + otherBytes (send_buffer bs s)
   = blackBytes s + whiteBytes s + redPrepBytes s + otherBytes s + int (length bs)"
proof (induction bs arbitrary: s)
  case Nil
  then show ?case by simp
next
  case (Cons b bs)
  have "blackBytes (count_byte b s\<lparr>trace := EPD_SendData b (trace s)\<rparr>)
        + whiteBytes (count_byte b s\<lparr>trace := EPD_SendData b (trace s)\<rparr>)
        + redPrepBytes (count_byte b s\<lparr>trace := EPD_SendData b (trace s)\<rparr>)
        + otherBytes (count_byte b s\<lparr>trace := EPD_SendData b (trace s)\<rparr>)
        = blackBytes s + whiteBytes s + redPrepBytes s + otherBytes s + 1"
    using count_byte_sum [of b s] by simp
  with Cons.IH [of "count_byte b s\<lparr>trace := EPD_SendData b (trace s)\<rparr>"]
  show ?case by simp
qed


lemma send_buffer_counts:
  "blackBytes (send_buffer bs s) = blackBytes s + int (count_list bs 0x00)"
  "whiteBytes (send_buffer bs s) = whiteBytes s + int (count_list bs 0x33)"
  by (induction bs arbitrary: s) (simp_all add: count_byte_def)

subsection \<open>The read loop\<close>

lemma read_chunk_run:
  assumes "avail \<noteq> []" and "bytesReceived s < E" and "bytesReceived s < TOTAL_BYTES"
  shows "\<exists>n. 0 < n \<and> n \<le> length avail \<and> n \<le> 1024
           \<and> bytesReceived s + int n \<le> min E TOTAL_BYTES
           \<and> rxbuf (read_chunk E avail s) = drop n avail
           \<and> bytesReceived (read_chunk E avail s) = bytesReceived s + int n
           \<and> trace (read_chunk E avail s)
               = trace s @ StreamRead (take n avail) # map Data (take n avail)
           \<and> blackBytes (read_chunk E avail s) + whiteBytes (read_chunk E avail s)
               + redPrepBytes (read_chunk E avail s) + otherBytes (read_chunk E avail s)
               = blackBytes s + whiteBytes s + redPrepBytes s + otherBytes s + int n
           \<and> blackBytes (read_chunk E avail s)
               = blackBytes s + int (count_list (take n avail) 0x00)
           \<and> whiteBytes (read_chunk E avail s)
               = whiteBytes s + int (count_list (take n avail) 0x33)"
proof -
  define n where
    "n = min (min (length avail) (nat (min (E - bytesReceived s) (TOTAL_BYTES - bytesReceived s)))) 1024"
  define s0 where
    "s0 = s\<lparr>rxbuf := drop n avail, trace := trace s @ [StreamRead (take n avail)]\<rparr>"
  have rc: "read_chunk E avail s
            = (send_buffer (take n avail) s0)
                \<lparr>bytesReceived := bytesReceived (send_buffer (take n avail) s0)
                                   + int (length (take n avail))\<rparr>"
    by (simp add: read_chunk_def Let_def n_def s0_def)
  have pos: "0 < n" using assms by (simp add: n_def)
  have le: "n \<le> length avail" "n \<le> 1024" by (simp_all add: n_def)
  have bound: "bytesReceived s + int n \<le> min E TOTAL_BYTES"
    using assms unfolding n_def by linarith
  have len: "length (take n avail) = n" using le by simp
  have sum: "blackBytes (send_buffer (take n avail) s0) + whiteBytes (send_buffer (take n avail) s0)
               + redPrepBytes (send_buffer (take n avail) s0)
               + otherBytes (send_buffer (take n avail) s0)
             = blackBytes s + whiteBytes s + redPrepBytes s + otherBytes s + int n"
    using send_buffer_sum [of "take n avail" s0] len by (simp add: s0_def)
  show ?thesis
    apply (rule exI [of _ n])
    using pos le bound sum len by (simp add: rc s0_def send_buffer_counts)
qed


lemma proj_map_Data [simp]:
  "data_bytes (map Data xs) = xs"
  "commands (map Data xs) = []"
  "read_bytes (map Data xs) = []"
  "requests (map Data xs) = []"
  by (induction xs) simp_all

lemma take_add_append:
  assumes "n \<le> length xs"
  shows "take (n + k) (xs @ ys) = take n xs @ take k (drop n xs @ ys)"
proof -
  have "take (n + k) (xs @ ys) = take n (xs @ ys) @ take k (drop n (xs @ ys))"
    by (rule take_add)
  with assms show ?thesis by simp
qed

lemma stream_loop_run:
  "stream_loop E t ps s = (x, s') \<Longrightarrow>
   \<exists>k evs. bytesReceived s' = bytesReceived s + int k
     \<and> k \<le> length (rxbuf s @ concat (map arrived ps))
     \<and> trace s' = trace s @ evs \<and> commands evs = [] \<and> requests evs = []
     \<and> data_bytes evs = take k (rxbuf s @ concat (map arrived ps))
     \<and> read_bytes evs = take k (rxbuf s @ concat (map arrived ps))
     \<and> blackBytes s' + whiteBytes s' + redPrepBytes s' + otherBytes s'
         = blackBytes s + whiteBytes s + redPrepBytes s + otherBytes s + int k
     \<and> bytesReceived s' \<le> max (bytesReceived s) (min E TOTAL_BYTES)
     \<and> (k = 0 \<longrightarrow> s' = s)
     \<and> blackBytes s'
         = blackBytes s + int (count_list (take k (rxbuf s @ concat (map arrived ps))) 0x00)
     \<and> whiteBytes s'
         = whiteBytes s + int (count_list (take k (rxbuf s @ concat (map arrived ps))) 0x33)"
proof (induction ps arbitrary: s)
  case Nil
  then have "s' = s" by simp
  then show ?case
    by (intro exI [of _ 0] exI [of _ "[]"]) simp
next
  case (Cons p ps)
  let ?avail = "rxbuf s @ arrived p"
  let ?rest = "concat (map arrived ps)"
  show ?case
  proof (cases "connected p \<and> bytesReceived s < E \<and> bytesReceived s < TOTAL_BYTES")
    case False
    with Cons.prems have "s' = s" by auto
    then show ?thesis
      by (intro exI [of _ 0] exI [of _ "[]"]) simp
  next
    case running: True
    show ?thesis
    proof (cases "?avail = []")
      case idle: True
      show ?thesis
      proof (cases "millis p - t > 30000")
        case True
        with running idle Cons.prems have "s' = s" by simp
        then show ?thesis
          by (intro exI [of _ 0] exI [of _ "[]"]) simp
      next
        case False
        with running idle Cons.prems have "stream_loop E t ps s = (x, s')" by simp
        from Cons.IH [OF this] idle show ?thesis by simp
      qed
    next
      case avail: False
      from read_chunk_run [OF avail, of s E] running
      obtain n where n: "0 < n" "n \<le> length ?avail"
          "bytesReceived s + int n \<le> min E TOTAL_BYTES"
          "rxbuf (read_chunk E ?avail s) = drop n ?avail"
          "bytesReceived (read_chunk E ?avail s) = bytesReceived s + int n"
          "trace (read_chunk E ?avail s)
             = trace s @ StreamRead (take n ?avail) # map Data (take n ?avail)"
          "blackBytes (read_chunk E ?avail s) + whiteBytes (read_chunk E ?avail s)
             + redPrepBytes (read_chunk E ?avail s) + otherBytes (read_chunk E ?avail s)
           = blackBytes s + whiteBytes s + redPrepBytes s + otherBytes s + int n"
          "blackBytes (read_chunk E ?avail s)
             = blackBytes s + int (count_list (take n ?avail) 0x00)"
          "whiteBytes (read_chunk E ?avail s)
             = whiteBytes s + int (count_list (take n ?avail) 0x33)"
        by blast
      from running avail Cons.prems
      have "stream_loop E t ps (read_chunk E ?avail s) = (x, s')" by simp
      from Cons.IH [OF this] obtain k evs where k:
          "bytesReceived s' = bytesReceived (read_chunk E ?avail s) + int k"
          "k \<le> length (rxbuf (read_chunk E ?avail s) @ ?rest)"
          "trace s' = trace (read_chunk E ?avail s) @ evs"
          "commands evs = []" "requests evs = []"
          "data_bytes evs = take k (rxbuf (read_chunk E ?avail s) @ ?rest)"
          "read_bytes evs = take k (rxbuf (read_chunk E ?avail s) @ ?rest)"
          "blackBytes s' + whiteBytes s' + redPrepBytes s' + otherBytes s'
             = blackBytes (read_chunk E ?avail s) + whiteBytes (read_chunk E ?avail s)
               + redPrepBytes (read_chunk E ?avail s) + otherBytes (read_chunk E ?avail s)
               + int k"
          "bytesReceived s' \<le> max (bytesReceived (read_chunk E ?avail s)) (min E TOTAL_BYTES)"
          "blackBytes s' = blackBytes (read_chunk E ?avail s)
             + int (count_list (take k (rxbuf (read_chunk E ?avail s) @ ?rest)) 0x00)"
          "whiteBytes s' = whiteBytes (read_chunk E ?avail s)
             + int (count_list (take k (rxbuf (read_chunk E ?avail s) @ ?rest)) 0x33)"
        by blast
      let ?evs = "StreamRead (take n ?avail) # map Data (take n ?avail) @ evs"
      have tk: "take (n + k) (?avail @ ?rest) = take n ?avail @ take k (drop n ?avail @ ?rest)"
        using n(2) by (rule take_add_append)
      have whole: "rxbuf s @ concat (map arrived (p # ps)) = ?avail @ ?rest" by simp
      have 1: "bytesReceived s' = bytesReceived s + int (n + k)"
        using k(1) n(5) by simp
      have 2: "n + k \<le> length (?avail @ ?rest)"
        using k(2) n(2,4) by simp
      have 3: "trace s' = trace s @ ?evs"
        using k(3) n(6) by simp
      have 4: "commands ?evs = []" "requests ?evs = []"
        using k(4,5) by simp_all
      have 5: "data_bytes ?evs = take (n + k) (?avail @ ?rest)"
        using k(6) n(4) tk by simp
      have 6: "read_bytes ?evs = take (n + k) (?avail @ ?rest)"
        using k(7) n(4) tk by simp
      have 7: "blackBytes s' + whiteBytes s' + redPrepBytes s' + otherBytes s'
                = blackBytes s + whiteBytes s + redPrepBytes s + otherBytes s + int (n + k)"
        using k(8) n(7) by simp
      have 8: "bytesReceived s' \<le> max (bytesReceived s) (min E TOTAL_BYTES)"
        using k(9) n(3,5) by linarith
      have 9: "n + k = 0 \<longrightarrow> s' = s" using n(1) by simp
      have 10: "blackBytes s' = blackBytes s + int (count_list (take (n + k) (?avail @ ?rest)) 0x00)"
        using k(10) n(4,8) tk by simp
      have 11: "whiteBytes s' = whiteBytes s + int (count_list (take (n + k) (?avail @ ?rest)) 0x33)"
        using k(11) n(4,9) tk by simp
      show ?thesis
        unfolding whole
        by (intro exI [of _ "n + k"] exI [of _ ?evs] conjI 1 2 3 4 5 6 7 8 9 10 11)
    qed
  qed
qed

subsection \<open>One channel transfer\<close>

lemma pad_channel_fields:
  "trace (pad_channel c s)
     = trace s @ replicate (nat (TOTAL_BYTES - bytesReceived s)) (Data (if c = 0x10 then 0x33 else 0xFF))"
  "bytesReceived (pad_channel c s) = bytesReceived s"
  "blackBytes (pad_channel c s) = blackBytes s"
  "whiteBytes (pad_channel c s)
     = whiteBytes s + (if c = 0x10 then max 0 (TOTAL_BYTES - bytesReceived s) else 0)"
  "redPrepBytes (pad_channel c s) = redPrepBytes s"
  "otherBytes (pad_channel c s) = otherBytes s"
  by (simp_all add: pad_channel_def Let_def send_loop_const)

lemma stream_channel_facts:
  fixes http c E tr
  defines "r \<equiv> streamChannelToDisplay http c E tr"
    and "stream \<equiv> concat (map arrived (polls http))"
  defines "k \<equiv> nat (bytesReceived (st r))"
    and "padding \<equiv> (if timedOut r then []
                     else replicate (nat TOTAL_BYTES - nat (bytesReceived (st r)))
                            (if c = 0x10 then 0x33 else 0xFF :: byte))"
  shows "0 \<le> bytesReceived (st r)"
    and "bytesReceived (st r) \<le> max 0 (min E TOTAL_BYTES)"
    and "k \<le> length stream"
    and "\<exists>evs. trace (st r) = tr @ Cmd c # evs @ map Data padding
              \<and> commands evs = [] \<and> requests evs = []
              \<and> data_bytes evs = take k stream \<and> read_bytes evs = take k stream
              \<and> (k = 0 \<longrightarrow> evs = [])"
    and "data_bytes (trace (st r)) = data_bytes tr @ take k stream @ padding"
    and "read_bytes (trace (st r)) = read_bytes tr @ take k stream"
    and "commands (trace (st r)) = commands tr @ [c]"
    and "requests (trace (st r)) = requests tr"
    and "ret r = (\<not> timedOut r \<and> 0 < bytesReceived (st r))"
    and "noBlackWarning r
         = (\<not> timedOut r \<and> c = 0x10 \<and> count_list (take k stream) 0x00 = 0)"
    and "blackBytes (st r) + whiteBytes (st r) + redPrepBytes (st r) + otherBytes (st r)
         = (if \<not> timedOut r \<and> c = 0x10 then TOTAL_BYTES else bytesReceived (st r))"
    and "whiteBytes (st r)
         = int (count_list (take k stream) 0x33)
           + (if \<not> timedOut r \<and> c = 0x10 then TOTAL_BYTES - bytesReceived (st r) else 0)"
proof -
  define s0 where
    "s0 = \<lparr>rxbuf = [], bytesReceived = 0, blackBytes = 0, whiteBytes = 0,
            redPrepBytes = 0, otherBytes = 0, trace = EPD_SendCommand c tr\<rparr>"
  obtain x s where loop: "stream_loop E (startTime http) (polls http) s0 = (x, s)"
    by (cases "stream_loop E (startTime http) (polls http) s0")
  from stream_loop_run [OF loop] obtain j evs where j:
      "bytesReceived s = int j" "j \<le> length stream"
      "trace s = tr @ Cmd c # evs" "commands evs = []" "requests evs = []"
      "data_bytes evs = take j stream" "read_bytes evs = take j stream"
      "blackBytes s + whiteBytes s + redPrepBytes s + otherBytes s = int j"
      "bytesReceived s \<le> max 0 (min E TOTAL_BYTES)"
      "j = 0 \<longrightarrow> s = s0"
      "blackBytes s = int (count_list (take j stream) 0x00)"
      "whiteBytes s = int (count_list (take j stream) 0x33)"
    unfolding s0_def EPD_SendCommand_def stream_def by auto
  have e0: "j = 0 \<longrightarrow> evs = []"
    using j(3,10) by (auto simp: s0_def EPD_SendCommand_def)
  have jT: "int j \<le> TOTAL_BYTES" using j(1,9) by (simp add: TOTAL_BYTES_def)
  have natj: "nat (TOTAL_BYTES - int j) = nat TOTAL_BYTES - j" by linarith
  have mx: "max 0 (TOTAL_BYTES - int j) = TOTAL_BYTES - int j" using jT by simp
  have r: "r = \<lparr>ret = (x = Finished \<and> 0 < j), timedOut = (x = TimedOut),
                noBlackWarning = (x = Finished \<and> c = 0x10 \<and> blackBytes s = 0),
                st = (if x = TimedOut then s else pad_channel c s)\<rparr>"
    using loop j(1)
    by (cases x) (simp_all add: r_def streamChannelToDisplay_def s0_def Let_def pad_channel_fields)
  have br: "bytesReceived (st r) = int j"
    by (simp add: r j(1) pad_channel_fields)
  have k: "k = j" by (simp add: k_def br)
  have pd: "padding = (if x = TimedOut then []
                       else replicate (nat TOTAL_BYTES - j) (if c = 0x10 then 0x33 else 0xFF))"
    by (simp add: padding_def br) (simp add: r)
  have tr: "trace (st r) = tr @ Cmd c # evs @ map Data padding"
    by (simp add: r pd j(3) pad_channel_fields j(1) natj)
  show "0 \<le> bytesReceived (st r)" by (simp add: br)
  show "bytesReceived (st r) \<le> max 0 (min E TOTAL_BYTES)" using j(9) by (simp add: br j(1))
  show "k \<le> length stream" using j(2) by (simp add: k)
  show "\<exists>evs. trace (st r) = tr @ Cmd c # evs @ map Data padding
              \<and> commands evs = [] \<and> requests evs = []
              \<and> data_bytes evs = take k stream \<and> read_bytes evs = take k stream
              \<and> (k = 0 \<longrightarrow> evs = [])"
    using tr j(4-7) e0 unfolding k by (intro exI [of _ evs]) simp
  show "data_bytes (trace (st r)) = data_bytes tr @ take k stream @ padding"
    by (simp add: tr j(6) k)
  show "read_bytes (trace (st r)) = read_bytes tr @ take k stream"
    by (simp add: tr j(7) k)
  show "commands (trace (st r)) = commands tr @ [c]"
    by (simp add: tr j(4))
  show "requests (trace (st r)) = requests tr"
    by (simp add: tr j(5))
  show "ret r = (\<not> timedOut r \<and> 0 < bytesReceived (st r))"
    unfolding br by (cases x) (simp_all add: r)
  show "noBlackWarning r
         = (\<not> timedOut r \<and> c = 0x10 \<and> count_list (take k stream) 0x00 = 0)"
    unfolding k by (cases x) (simp_all add: r j(11))
  show "blackBytes (st r) + whiteBytes (st r) + redPrepBytes (st r) + otherBytes (st r)
         = (if \<not> timedOut r \<and> c = 0x10 then TOTAL_BYTES else bytesReceived (st r))"
    unfolding br using j(8) mx
    by (cases x) (simp_all add: r pad_channel_fields j(1))
  show "whiteBytes (st r)
         = int (count_list (take k stream) 0x33)
           + (if \<not> timedOut r \<and> c = 0x10 then TOTAL_BYTES - bytesReceived (st r) else 0)"
    unfolding br k using j(12) mx
    by (cases x) (simp_all add: r pad_channel_fields j(1))
qed

lemma stream_loop_limit_reached:
  "\<not> bytesReceived s < E \<Longrightarrow> stream_loop E t ps s = (Finished, s)"
  by (cases ps) simp_all

lemma stream_loop_no_timeout:
  "\<forall>q\<in>set ps. arrived q = [] \<longrightarrow> millis q - t \<le> 30000
   \<Longrightarrow> fst (stream_loop E t ps s) = Finished"
proof (induction ps arbitrary: s)
  case Nil
  then show ?case by simp
next
  case (Cons p ps)
  then have rest: "\<And>s'. fst (stream_loop E t ps s') = Finished" by simp
  show ?case
  proof (cases "rxbuf s @ arrived p = []")
    case True
    with Cons.prems have "millis p - t \<le> 30000" by simp
    then have "\<not> millis p - t > 30000" by (simp add: not_less)
    with True rest show ?thesis by simp
  next
    case False
    with rest show ?thesis by simp
  qed
qed

lemma stream_loop_idle_prefix:
  assumes "rxbuf s = []" and "bytesReceived s < E" and "bytesReceived s < TOTAL_BYTES"
    and "\<forall>q\<in>set pre. connected q \<and> arrived q = [] \<and> millis q - t \<le> 30000"
  shows "stream_loop E t (pre @ rest) s = stream_loop E t rest s"
  using assms(4)
proof (induction pre)
  case Nil
  show ?case by simp
next
  case (Cons q pre)
  from Cons.prems have q: "connected q" "arrived q = []" "\<not> millis q - t > 30000"
    by (simp_all add: not_less)
  from Cons.prems have "\<forall>q\<in>set pre. connected q \<and> arrived q = [] \<and> millis q - t \<le> 30000"
    by simp
  then have IH: "stream_loop E t (pre @ rest) s = stream_loop E t rest s"
    by (rule Cons.IH)
  have "stream_loop E t ((q # pre) @ rest) s = stream_loop E t (pre @ rest) s"
    using q assms(1-3) by simp
  with IH show ?case by simp
qed

lemma stream_loop_buffered:
  "nat (min E TOTAL_BYTES - bytesReceived s) \<le> length (rxbuf s)
   \<Longrightarrow> fst (stream_loop E t ps s) = Finished"
proof (induction ps arbitrary: s)
  case Nil
  then show ?case by simp
next
  case (Cons p ps)
  let ?avail = "rxbuf s @ arrived p"
  show ?case
  proof (cases "connected p \<and> bytesReceived s < E \<and> bytesReceived s < TOTAL_BYTES")
    case False
    then show ?thesis by auto
  next
    case running: True
    with Cons.prems have avail: "?avail \<noteq> []" by auto
    from read_chunk_run [OF avail, of s E] running
    obtain n where n: "n \<le> length ?avail"
        "rxbuf (read_chunk E ?avail s) = drop n ?avail"
        "bytesReceived (read_chunk E ?avail s) = bytesReceived s + int n"
      by blast
    have "nat (min E TOTAL_BYTES - bytesReceived (read_chunk E ?avail s))
          \<le> length (rxbuf (read_chunk E ?avail s))"
      using Cons.prems n by simp
    from Cons.IH [OF this] running avail show ?thesis by simp
  qed
qed

lemma stream_loop_arrived_all:
  assumes "nat (min E TOTAL_BYTES - bytesReceived s) \<le> length (rxbuf s @ arrived p)"
  shows "fst (stream_loop E t (p # ps) s) = Finished"
proof (cases "connected p \<and> bytesReceived s < E \<and> bytesReceived s < TOTAL_BYTES")
  case False
  then show ?thesis by auto
next
  case running: True
  let ?avail = "rxbuf s @ arrived p"
  from running assms have avail: "?avail \<noteq> []" by auto
  from read_chunk_run [OF avail, of s E] running
  obtain n where n: "n \<le> length ?avail"
      "rxbuf (read_chunk E ?avail s) = drop n ?avail"
      "bytesReceived (read_chunk E ?avail s) = bytesReceived s + int n"
    by blast
  have "nat (min E TOTAL_BYTES - bytesReceived (read_chunk E ?avail s))
        \<le> length (rxbuf (read_chunk E ?avail s))"
    using assms n by simp
  then have "fst (stream_loop E t ps (read_chunk E ?avail s)) = Finished"
    by (rule stream_loop_buffered)
  with running avail show ?thesis by simp
qed

lemma timedOut_iff:
  "timedOut (streamChannelToDisplay http c E tr)
   = (fst (stream_loop E (startTime http) (polls http)
             \<lparr>rxbuf = [], bytesReceived = 0, blackBytes = 0, whiteBytes = 0,
                redPrepBytes = 0, otherBytes = 0, trace = EPD_SendCommand c tr\<rparr>) = TimedOut)"
  by (simp add: streamChannelToDisplay_def Let_def split: prod.split loop_exit.split)

subsection \<open>The update sequence\<close>

lemma Cmd_in_set: "Cmd c \<in> set tr \<longleftrightarrow> c \<in> set (commands tr)"
proof (induction tr)
  case Nil
  show ?case by simp
next
  case (Cons e tr)
  then show ?case by (cases e) auto
qed

lemma HttpGet_in_set: "HttpGet u \<in> set tr \<longleftrightarrow> u \<in> set (requests tr)"
proof (induction tr)
  case Nil
  show ?case by simp
next
  case (Cons e tr)
  then show ?case by (cases e) auto
qed

lemma init_append: "EPD_7in5_V1_Init tr = tr @ EPD_7in5_V1_Init []"
  by (simp add: EPD_7in5_V1_Init_def EPD_Reset_def EPD_Send_1_def EPD_Send_2_def EPD_Send_3_def
      EPD_Send_4_def EPD_SendCommand_def EPD_SendData_def EPD_WaitUntilIdle_def)

lemma init_projections:
  "commands (EPD_7in5_V1_Init []) =
     [0x01, 0x00, 0x06, 0x04, 0x30, 0x41, 0x50, 0x60, 0x61, 0x82, 0xE5, 0x10]"
  "requests (EPD_7in5_V1_Init []) = []"
  "read_bytes (EPD_7in5_V1_Init []) = []"
  by (simp_all add: EPD_7in5_V1_Init_def EPD_Reset_def EPD_Send_1_def EPD_Send_2_def
      EPD_Send_3_def EPD_Send_4_def EPD_SendCommand_def EPD_SendData_def EPD_WaitUntilIdle_def)

lemma stream_shape:
  "\<exists>X. trace (st (streamChannelToDisplay http c E tr)) = tr @ Cmd c # X
       \<and> commands X = [] \<and> requests X = []
       \<and> (ret (streamChannelToDisplay http c E tr)
            \<longrightarrow> length (data_bytes X) = nat TOTAL_BYTES)"
proof -
  define r where "r = streamChannelToDisplay http c E tr"
  define padding where "padding = (if timedOut r then []
         else replicate (nat TOTAL_BYTES - nat (bytesReceived (st r)))
                (if c = 0x10 then 0x33 else 0xFF :: byte))"
  note run = stream_channel_facts [of http c E tr, folded r_def, folded padding_def]
  from run(4) obtain evs where evs:
      "trace (st r) = tr @ Cmd c # evs @ map Data padding"
      "commands evs = []" "requests evs = []"
      "data_bytes evs = take (nat (bytesReceived (st r))) (concat (map arrived (polls http)))"
    by blast
  from run(2) have kT: "nat (bytesReceived (st r)) \<le> nat TOTAL_BYTES" by linarith
  have "length (data_bytes (evs @ map Data padding)) = nat TOTAL_BYTES" if "ret r"
  proof -
    from that run(9) have "\<not> timedOut r" by simp
    with kT run(3) show ?thesis by (simp add: evs(4) padding_def)
  qed
  with evs(1-3) show ?thesis
    unfolding r_def [symmetric]
    by (intro exI [of _ "evs @ map Data padding"]) simp
qed

lemma bw_shape:
  "(httpCode bw \<noteq> HTTP_CODE_OK
      \<and> downloadAndStreamBW bw tr = (False, tr @ [HttpGet calendar_raw_url]))
   \<or> (httpCode bw = HTTP_CODE_OK
      \<and> (\<exists>ok X. downloadAndStreamBW bw tr = (ok, tr @ HttpGet calendar_raw_url # Cmd 0x10 # X)
            \<and> commands X = [] \<and> requests X = []
            \<and> (ok \<longrightarrow> length (data_bytes X) = nat TOTAL_BYTES)))"
proof (cases "httpCode bw = HTTP_CODE_OK")
  case False
  then show ?thesis by (simp add: downloadAndStreamBW_def)
next
  case True
  from stream_shape [of bw "0x10" "getSize bw" "tr @ [HttpGet calendar_raw_url]"]
  obtain X where X:
      "trace (st (streamChannelToDisplay bw 0x10 (getSize bw) (tr @ [HttpGet calendar_raw_url])))
       = (tr @ [HttpGet calendar_raw_url]) @ Cmd 0x10 # X"
      "commands X = []" "requests X = []"
      "ret (streamChannelToDisplay bw 0x10 (getSize bw) (tr @ [HttpGet calendar_raw_url]))
         \<longrightarrow> length (data_bytes X) = nat TOTAL_BYTES"
    by blast
  have "downloadAndStreamBW bw tr
        = (ret (streamChannelToDisplay bw 0x10 (getSize bw) (tr @ [HttpGet calendar_raw_url])),
           tr @ HttpGet calendar_raw_url # Cmd 0x10 # X)"
    using True by (simp add: downloadAndStreamBW_def Let_def X(1))
  with True X(2-4) show ?thesis by blast
qed

lemma red_shape:
  "\<exists>ok X. downloadAndStreamRed red tr = (ok, tr @ HttpGet calendar_red_url # Cmd 0x13 # X)
       \<and> commands X = [] \<and> requests X = []
       \<and> (ok \<longrightarrow> length (data_bytes X) = nat TOTAL_BYTES)"
proof (cases "httpCode red = HTTP_CODE_OK")
  case False
  then have "downloadAndStreamRed red tr
      = (True, tr @ HttpGet calendar_red_url # Cmd 0x13 # replicate (nat TOTAL_BYTES) (Data 0xFF))"
    by (simp add: downloadAndStreamRed_def send_loop_const EPD_SendCommand_def)
  then show ?thesis
    by (intro exI [of _ True] exI [of _ "replicate (nat TOTAL_BYTES) (Data 0xFF)"]) simp
next
  case True
  from stream_shape [of red "0x13" "getSize red" "tr @ [HttpGet calendar_red_url]"]
  obtain X where X:
      "trace (st (streamChannelToDisplay red 0x13 (getSize red) (tr @ [HttpGet calendar_red_url])))
       = (tr @ [HttpGet calendar_red_url]) @ Cmd 0x13 # X"
      "commands X = []" "requests X = []"
      "ret (streamChannelToDisplay red 0x13 (getSize red) (tr @ [HttpGet calendar_red_url]))
         \<longrightarrow> length (data_bytes X) = nat TOTAL_BYTES"
    by blast
  have "downloadAndStreamRed red tr
        = (ret (streamChannelToDisplay red 0x13 (getSize red) (tr @ [HttpGet calendar_red_url])),
           tr @ HttpGet calendar_red_url # Cmd 0x13 # X)"
    using True by (simp add: downloadAndStreamRed_def Let_def X(1))
  with X(2-4) show ?thesis by blast
qed

lemma update_bw_failed:
  "downloadAndStreamBW bw (EPD_7in5_V1_Init tr) = (False, tr2)
   \<Longrightarrow> downloadAndDisplayCalendar True bw red tr = (False, tr2)"
  by (simp add: downloadAndDisplayCalendar_def Let_def)

lemma update_red_failed:
  "downloadAndStreamBW bw (EPD_7in5_V1_Init tr) = (True, tr2)
   \<Longrightarrow> downloadAndStreamRed red tr2 = (False, tr3)
   \<Longrightarrow> downloadAndDisplayCalendar True bw red tr = (False, tr3)"
  by (simp add: downloadAndDisplayCalendar_def Let_def)

lemma update_refreshed:
  "downloadAndStreamBW bw (EPD_7in5_V1_Init tr) = (True, tr2)
   \<Longrightarrow> downloadAndStreamRed red tr2 = (True, tr3)
   \<Longrightarrow> downloadAndDisplayCalendar True bw red tr = (True, tr3 @ [Cmd 0x12])"
  by (simp add: downloadAndDisplayCalendar_def Let_def EPD_7IN5_V1_Show_def EPD_SendCommand_def)

lemma short_peer_bw_ok:
  "fst (downloadAndStreamBW short_peer tr)"
  by (simp add: downloadAndStreamBW_def short_peer_def HTTP_CODE_OK_def Let_def
      streamChannelToDisplay_def TOTAL_BYTES_def read_chunk_def pad_channel_fields)

lemma update_shape:
  fixes bw red
  defines "I \<equiv> EPD_7in5_V1_Init []"
  defines "U \<equiv> downloadAndDisplayCalendar True bw red []"
  shows "U = (False, I @ [HttpGet calendar_raw_url])
       \<or> (\<exists>X. U = (False, I @ HttpGet calendar_raw_url # Cmd 0x10 # X) \<and> commands X = [])
       \<or> (\<exists>X Z. U = (False, I @ HttpGet calendar_raw_url # Cmd 0x10 # X
                              @ HttpGet calendar_red_url # Cmd 0x13 # Z)
                \<and> commands X = [] \<and> length (data_bytes X) = nat TOTAL_BYTES
                \<and> commands Z = [])
       \<or> (\<exists>X Y. U = (True, I @ HttpGet calendar_raw_url # Cmd 0x10 # X
                             @ HttpGet calendar_red_url # Cmd 0x13 # Y @ [Cmd 0x12])
                \<and> commands X = [] \<and> length (data_bytes X) = nat TOTAL_BYTES
                \<and> commands Y = [] \<and> length (data_bytes Y) = nat TOTAL_BYTES)"
proof -
  from bw_shape [of bw I] consider
      (bw_get) "downloadAndStreamBW bw I = (False, I @ [HttpGet calendar_raw_url])"
    | (bw_stream) X where
        "downloadAndStreamBW bw I = (False, I @ HttpGet calendar_raw_url # Cmd 0x10 # X)"
        "commands X = []"
    | (bw_ok) X where
        "downloadAndStreamBW bw I = (True, I @ HttpGet calendar_raw_url # Cmd 0x10 # X)"
        "commands X = []" "length (data_bytes X) = nat TOTAL_BYTES"
    by (metis (full_types))
  then show ?thesis
  proof cases
    case bw_get
    then have "U = (False, I @ [HttpGet calendar_raw_url])"
      unfolding U_def I_def by (rule update_bw_failed)
    then show ?thesis by blast
  next
    case bw_stream
    from bw_stream(1) have "U = (False, I @ HttpGet calendar_raw_url # Cmd 0x10 # X)"
      unfolding U_def I_def by (rule update_bw_failed)
    with bw_stream(2) show ?thesis by blast
  next
    case bw_ok
    let ?tr2 = "I @ HttpGet calendar_raw_url # Cmd 0x10 # X"
    from red_shape [of red ?tr2] obtain ok Y where Y:
        "downloadAndStreamRed red ?tr2 = (ok, ?tr2 @ HttpGet calendar_red_url # Cmd 0x13 # Y)"
        "commands Y = []" "ok \<longrightarrow> length (data_bytes Y) = nat TOTAL_BYTES"
      by blast
    show ?thesis
    proof (cases ok)
      case False
      with Y(1) have "downloadAndStreamRed red ?tr2
          = (False, ?tr2 @ HttpGet calendar_red_url # Cmd 0x13 # Y)" by simp
      with bw_ok(1) have "U = (False, ?tr2 @ HttpGet calendar_red_url # Cmd 0x13 # Y)"
        unfolding U_def I_def by (rule update_red_failed)
      then have "U = (False, I @ HttpGet calendar_raw_url # Cmd 0x10 # X
                              @ HttpGet calendar_red_url # Cmd 0x13 # Y)" by simp
      with bw_ok(2,3) Y(2) show ?thesis by blast
    next
      case True
      with Y(1) have "downloadAndStreamRed red ?tr2
          = (True, ?tr2 @ HttpGet calendar_red_url # Cmd 0x13 # Y)" by simp
      with bw_ok(1) have "U = (True, (?tr2 @ HttpGet calendar_red_url # Cmd 0x13 # Y) @ [Cmd 0x12])"
        unfolding U_def I_def by (rule update_refreshed)
      then have "U = (True, I @ HttpGet calendar_raw_url # Cmd 0x10 # X
                             @ HttpGet calendar_red_url # Cmd 0x13 # Y @ [Cmd 0x12])" by simp
      with bw_ok(2,3) Y(2,3) True show ?thesis by blast
    qed
  qed
qed

text \<open>
  Ending the list of polls and going on with a poll at which the connection is closed
  are the same thing.
\<close>

lemma stream_loop_closed:
  assumes "\<not> connected q"
  shows "stream_loop E t (ps @ q # qs) s = stream_loop E t ps s"
proof (induction ps arbitrary: s)
  case Nil
  from assms show ?case by simp
next
  case (Cons p ps)
  have 1: "stream_loop E t (ps @ q # qs) (read_chunk E (rxbuf s @ arrived p) s)
           = stream_loop E t ps (read_chunk E (rxbuf s @ arrived p) s)"
    by (rule Cons.IH)
  have 2: "stream_loop E t (ps @ q # qs) s = stream_loop E t ps s"
    by (rule Cons.IH)
  show ?case by (simp add: 1 2)
qed

subsection \<open>What the loop reads, and when it times out\<close>




lemma stream_loop_prefix:
  assumes "\<forall>q\<in>set pre. connected q"
    and "stream_loop E t pre s0 = (Finished, s)"
    and "bytesReceived s < E" and "bytesReceived s < TOTAL_BYTES"
  shows "stream_loop E t (pre @ rest) s0 = stream_loop E t rest s"
  using assms(1,2)
proof (induction pre arbitrary: s0)
  case Nil
  then show ?case by simp
next
  case (Cons q pre)
  from Cons.prems(1) have q: "connected q" and pre: "\<forall>q\<in>set pre. connected q"
    by simp_all
  note run = Cons.prems(2)
  show ?case
  proof (cases "bytesReceived s0 < E \<and> bytesReceived s0 < TOTAL_BYTES")
    case False
    with run have "s = s0" by auto
    with False assms(3,4) show ?thesis by simp
  next
    case running: True
    show ?thesis
    proof (cases "rxbuf s0 @ arrived q = []")
      case False
      let ?s1 = "read_chunk E (rxbuf s0 @ arrived q) s0"
      from False running q run have "stream_loop E t pre ?s1 = (Finished, s)" by simp
      from Cons.IH [OF pre this]
      have "stream_loop E t (pre @ rest) ?s1 = stream_loop E t rest s" .
      with False running q show ?thesis by simp
    next
      case True
      show ?thesis
      proof (cases "millis q - t > 30000")
        case late: True
        with True running q run show ?thesis by simp
      next
        case False
        with True running q run have "stream_loop E t pre s0 = (Finished, s)" by simp
        from Cons.IH [OF pre this]
        have "stream_loop E t (pre @ rest) s0 = stream_loop E t rest s" .
        with False True running q show ?thesis by simp
      qed
    qed
  qed
qed

lemma stream_loop_timeout_split:
  assumes "fst (stream_loop E t ps s0) = TimedOut"
  shows "\<exists>pre p rest s. ps = pre @ p # rest \<and> (\<forall>q\<in>set pre. connected q)
           \<and> stream_loop E t pre s0 = (Finished, s)
           \<and> connected p \<and> bytesReceived s < E \<and> bytesReceived s < TOTAL_BYTES
           \<and> rxbuf s = [] \<and> arrived p = [] \<and> millis p - t > 30000"
  using assms
proof (induction ps arbitrary: s0)
  case Nil
  then show ?case by simp
next
  case (Cons p ps)
  note out = Cons.prems
  have running: "connected p" "bytesReceived s0 < E" "bytesReceived s0 < TOTAL_BYTES"
    using out by (auto split: if_splits)
  show ?case
  proof (cases "rxbuf s0 @ arrived p = []")
    case False
    let ?s1 = "read_chunk E (rxbuf s0 @ arrived p) s0"
    from False running out have "fst (stream_loop E t ps ?s1) = TimedOut" by simp
    from Cons.IH [OF this] obtain pre q rest s where split:
        "ps = pre @ q # rest" "\<forall>q\<in>set pre. connected q"
        "stream_loop E t pre ?s1 = (Finished, s)"
        "connected q" "bytesReceived s < E" "bytesReceived s < TOTAL_BYTES"
        "rxbuf s = []" "arrived q = []" "millis q - t > 30000"
      by blast
    from split(3) False running
    have "stream_loop E t (p # pre) s0 = (Finished, s)" by simp
    moreover from split(1) have "p # ps = (p # pre) @ q # rest" by simp
    moreover from split(2) running(1) have "\<forall>q\<in>set (p # pre). connected q" by simp
    ultimately show ?thesis using split(4-9) by blast
  next
    case True
    show ?thesis
    proof (cases "millis p - t > 30000")
      case late: True
      have "p # ps = [] @ p # ps" "\<forall>q\<in>set []. connected q"
          "stream_loop E t [] s0 = (Finished, s0)"
        by simp_all
      with late True running show ?thesis by blast
    next
      case False
      with True running out have "fst (stream_loop E t ps s0) = TimedOut" by simp
      from Cons.IH [OF this] obtain pre q rest s where split:
          "ps = pre @ q # rest" "\<forall>q\<in>set pre. connected q"
          "stream_loop E t pre s0 = (Finished, s)"
          "connected q" "bytesReceived s < E" "bytesReceived s < TOTAL_BYTES"
          "rxbuf s = []" "arrived q = []" "millis q - t > 30000"
        by blast
      from split(3) False True running
      have "stream_loop E t (p # pre) s0 = (Finished, s)" by simp
      moreover from split(1) have "p # ps = (p # pre) @ q # rest" by simp
      moreover from split(2) running(1) have "\<forall>q\<in>set (p # pre). connected q" by simp
      ultimately show ?thesis using split(4-9) by blast
    qed
  qed
qed

lemma stream_loop_timeout_iff:
  "fst (stream_loop E t ps s0) = TimedOut
   \<longleftrightarrow> (\<exists>pre p rest s. ps = pre @ p # rest \<and> (\<forall>q\<in>set pre. connected q)
           \<and> stream_loop E t pre s0 = (Finished, s)
           \<and> connected p \<and> bytesReceived s < E \<and> bytesReceived s < TOTAL_BYTES
           \<and> rxbuf s = [] \<and> arrived p = [] \<and> millis p - t > 30000)"
proof
  assume "fst (stream_loop E t ps s0) = TimedOut"
  then show "\<exists>pre p rest s. ps = pre @ p # rest \<and> (\<forall>q\<in>set pre. connected q)
           \<and> stream_loop E t pre s0 = (Finished, s)
           \<and> connected p \<and> bytesReceived s < E \<and> bytesReceived s < TOTAL_BYTES
           \<and> rxbuf s = [] \<and> arrived p = [] \<and> millis p - t > 30000"
    by (rule stream_loop_timeout_split)
next
  assume "\<exists>pre p rest s. ps = pre @ p # rest \<and> (\<forall>q\<in>set pre. connected q)
           \<and> stream_loop E t pre s0 = (Finished, s)
           \<and> connected p \<and> bytesReceived s < E \<and> bytesReceived s < TOTAL_BYTES
           \<and> rxbuf s = [] \<and> arrived p = [] \<and> millis p - t > 30000"
  then obtain pre p rest s where split:
      "ps = pre @ p # rest" "\<forall>q\<in>set pre. connected q"
      "stream_loop E t pre s0 = (Finished, s)"
      "connected p" "bytesReceived s < E" "bytesReceived s < TOTAL_BYTES"
      "rxbuf s = []" "arrived p = []" "millis p - t > 30000"
    by blast
  have "stream_loop E t (pre @ p # rest) s0 = stream_loop E t (p # rest) s"
    using split(2,3,5,6) by (rule stream_loop_prefix)
  also have "\<dots> = (TimedOut, s)" using split(4-9) by simp
  finally show "fst (stream_loop E t ps s0) = TimedOut" by (simp add: split(1))
qed



section \<open>Properties\<close>

text \<open>
  C9. \<open>EPD_7in5_V1_Init\<close> performs the hardware reset and then exactly the ordered command
  sequence 0x01, 0x00, 0x06, 0x04 (followed by the wait for idle), 0x30, 0x41, 0x50, 0x60,
  0x61 with parameters 0x02 0x80 0x01 0x80, 0x82, 0xE5 and finally the black/white
  prepare command 0x10.
\<close>

theorem init_sequence:
  "EPD_7in5_V1_Init [] =
     [RstPin True, RstPin False, RstPin True,
      Cmd 0x01, Data 0x37, Data 0x00,
      Cmd 0x00, Data 0xCF, Data 0x08,
      Cmd 0x06, Data 0xC7, Data 0xCC, Data 0x28,
      Cmd 0x04, WaitIdle,
      Cmd 0x30, Data 0x3C,
      Cmd 0x41, Data 0x00,
      Cmd 0x50, Data 0x77,
      Cmd 0x60, Data 0x22,
      Cmd 0x61, Data 0x02, Data 0x80, Data 0x01, Data 0x80,
      Cmd 0x82, Data 0x1E,
      Cmd 0xE5, Data 0x03,
      Cmd 0x10]
   \<and> commands (EPD_7in5_V1_Init []) =
     [0x01, 0x00, 0x06, 0x04, 0x30, 0x41, 0x50, 0x60, 0x61, 0x82, 0xE5, 0x10]"
  by (simp add: EPD_7in5_V1_Init_def EPD_Reset_def EPD_Send_1_def EPD_Send_2_def EPD_Send_3_def
      EPD_Send_4_def EPD_SendCommand_def EPD_SendData_def EPD_WaitUntilIdle_def commands_def)

subsection \<open>The channel stream decoder\<close>




text \<open>
  C5, as stated: when the declared content length is missing or zero the decoder still
  reads up to the target length from the peer. In the sketch the declared length bounds
  the loop as it is: with a declared length of zero the loop is never entered. Here the
  peer delivers three bytes, which the limit of the specification would admit, and none
  of them is read; the whole channel is padding.
\<close>

theorem channel_read_limit_counterexample:
  "getSize zero_length_peer = 0
   \<and> take (nat (effectiveLimit_spec (getSize zero_length_peer)))
        (concat (map arrived (polls zero_length_peer))) = [1, 2, 3]
   \<and> read_bytes (trace (st (streamChannelToDisplay zero_length_peer 0x10
                              (getSize zero_length_peer) []))) = []
   \<and> data_bytes (trace (st (streamChannelToDisplay zero_length_peer 0x10
                              (getSize zero_length_peer) [])))
       = replicate (nat TOTAL_BYTES) 0x33"
proof -
  have "take (nat (effectiveLimit_spec (getSize zero_length_peer)))
          (concat (map arrived (polls zero_length_peer))) = [1, 2, 3]"
    by (simp add: zero_length_peer_def effectiveLimit_spec_def TOTAL_BYTES_def)
  moreover have "trace (st (streamChannelToDisplay zero_length_peer 0x10
                              (getSize zero_length_peer) []))
                 = Cmd 0x10 # replicate (nat TOTAL_BYTES) (Data 0x33)"
    by (simp add: zero_length_peer_def streamChannelToDisplay_def Let_def pad_channel_fields
        EPD_SendCommand_def)
  ultimately show ?thesis by (simp add: zero_length_peer_def)
qed

text \<open>
  C5, amended: the loop reads at most \<open>min(declaredLength, TOTAL_BYTES)\<close> bytes from the
  peer, and none when the declared length is zero or negative (the value of a missing
  length): then the transfer does not time out, writes \<open>TOTAL_BYTES\<close> padding bytes and
  returns false.
\<close>

theorem channel_read_limit:
  fixes http c E tr
  defines "r \<equiv> streamChannelToDisplay http c E tr"
    and "stream \<equiv> concat (map arrived (polls http))"
  shows "0 \<le> bytesReceived (st r)
     \<and> bytesReceived (st r) \<le> max 0 (min E TOTAL_BYTES)
     \<and> read_bytes (trace (st r)) = read_bytes tr @ take (nat (bytesReceived (st r))) stream
     \<and> (E \<le> 0 \<longrightarrow>
          bytesReceived (st r) = 0 \<and> read_bytes (trace (st r)) = read_bytes tr
          \<and> \<not> timedOut r \<and> \<not> ret r
          \<and> data_bytes (trace (st r))
              = data_bytes tr @ replicate (nat TOTAL_BYTES) (if c = 0x10 then 0x33 else 0xFF))"
proof -
  note run = stream_channel_facts [of http c E tr, folded r_def stream_def]
  have none_read: "E \<le> 0 \<longrightarrow>
          bytesReceived (st r) = 0 \<and> read_bytes (trace (st r)) = read_bytes tr
          \<and> \<not> timedOut r \<and> \<not> ret r
          \<and> data_bytes (trace (st r))
              = data_bytes tr @ replicate (nat TOTAL_BYTES) (if c = 0x10 then 0x33 else 0xFF)"
  proof
    assume neg: "E \<le> 0"
    with run(1,2) have k0: "bytesReceived (st r) = 0" by simp
    from neg have loop: "stream_loop E (startTime http) (polls http)
          \<lparr>rxbuf = [], bytesReceived = 0, blackBytes = 0, whiteBytes = 0,
             redPrepBytes = 0, otherBytes = 0, trace = EPD_SendCommand c tr\<rparr>
        = (Finished, \<lparr>rxbuf = [], bytesReceived = 0, blackBytes = 0, whiteBytes = 0,
             redPrepBytes = 0, otherBytes = 0, trace = EPD_SendCommand c tr\<rparr>)"
      by (intro stream_loop_limit_reached) simp
    have nt: "\<not> timedOut r"
      unfolding r_def streamChannelToDisplay_def Let_def loop by simp
    from k0 nt show "bytesReceived (st r) = 0 \<and> read_bytes (trace (st r)) = read_bytes tr
          \<and> \<not> timedOut r \<and> \<not> ret r
          \<and> data_bytes (trace (st r))
              = data_bytes tr @ replicate (nat TOTAL_BYTES) (if c = 0x10 then 0x33 else 0xFF)"
      by (simp add: run(5,6,9))
  qed
  show ?thesis by (intro conjI run(1) run(2) run(6) none_read)
qed

text \<open>
  C5, an instance: with a missing content length (\<open>getSize\<close> gives -1) nothing is read
  and the red channel is 0xFF throughout.
\<close>

theorem channel_read_limit_witness:
  "read_bytes (trace (st (streamChannelToDisplay zero_length_peer 0x13 (- 1) []))) = []
   \<and> \<not> ret (streamChannelToDisplay zero_length_peer 0x13 (- 1) [])
   \<and> data_bytes (trace (st (streamChannelToDisplay zero_length_peer 0x13 (- 1) [])))
       = replicate (nat TOTAL_BYTES) 0xFF"
  using channel_read_limit [of zero_length_peer "0x13" "- 1" "[]"] by simp

text \<open>
  C7, as stated: after any completed transfer the four counters add up to
  \<open>TOTAL_BYTES\<close>. Only the black/white branch of the padding code adds the pad bytes to
  a counter; padding on the red channel is not counted. Here three bytes arrive on the
  red channel, the rest is padded, and the counters add up to three.
\<close>

theorem channel_counter_sum_counterexample:
  "\<not> timedOut (streamChannelToDisplay short_peer 0x13 3 [])
   \<and> blackBytes (st (streamChannelToDisplay short_peer 0x13 3 []))
     + whiteBytes (st (streamChannelToDisplay short_peer 0x13 3 []))
     + redPrepBytes (st (streamChannelToDisplay short_peer 0x13 3 []))
     + otherBytes (st (streamChannelToDisplay short_peer 0x13 3 [])) = 3
   \<and> blackBytes (st (streamChannelToDisplay short_peer 0x13 3 []))
     + whiteBytes (st (streamChannelToDisplay short_peer 0x13 3 []))
     + redPrepBytes (st (streamChannelToDisplay short_peer 0x13 3 []))
     + otherBytes (st (streamChannelToDisplay short_peer 0x13 3 [])) \<noteq> TOTAL_BYTES"
  by (simp add: short_peer_def streamChannelToDisplay_def Let_def pad_channel_fields
      read_chunk_def count_byte_def TOTAL_BYTES_def)

text \<open>
  C7, amended: after a transfer that does not time out, on the black/white channel
  (command 0x10) the four counters add up to exactly \<open>TOTAL_BYTES\<close>, every pad byte being
  counted as white; on the red channel the pad bytes are not counted and the counters
  add up to the number of bytes received.
\<close>

theorem channel_counter_sum:
  fixes http c E tr
  defines "r \<equiv> streamChannelToDisplay http c E tr"
    and "stream \<equiv> concat (map arrived (polls http))"
  assumes completes: "\<not> timedOut r"
  shows "blackBytes (st r) + whiteBytes (st r) + redPrepBytes (st r) + otherBytes (st r)
         = (if c = 0x10 then TOTAL_BYTES else bytesReceived (st r))
     \<and> whiteBytes (st r)
         = int (count_list (take (nat (bytesReceived (st r))) stream) 0x33)
           + (if c = 0x10 then TOTAL_BYTES - bytesReceived (st r) else 0)"
proof -
  note run = stream_channel_facts [of http c E tr, folded r_def stream_def]
  from run(11) run(12) completes show ?thesis by simp
qed

text \<open>
  C7, an instance: one black, one white and one red-prepare byte arrive on the
  black/white channel; the counters add up to \<open>TOTAL_BYTES\<close> and the white counter holds
  the one white byte and the \<open>TOTAL_BYTES - 3\<close> pad bytes.
\<close>

theorem channel_counter_sum_witness:
  "\<not> timedOut (streamChannelToDisplay short_peer 0x10 3 [])
   \<and> blackBytes (st (streamChannelToDisplay short_peer 0x10 3 []))
     + whiteBytes (st (streamChannelToDisplay short_peer 0x10 3 []))
     + redPrepBytes (st (streamChannelToDisplay short_peer 0x10 3 []))
     + otherBytes (st (streamChannelToDisplay short_peer 0x10 3 [])) = TOTAL_BYTES
   \<and> whiteBytes (st (streamChannelToDisplay short_peer 0x10 3 [])) = 1 + (TOTAL_BYTES - 3)"
proof -
  have nt: "\<not> timedOut (streamChannelToDisplay short_peer 0x10 3 [])"
    by (simp add: short_peer_def streamChannelToDisplay_def TOTAL_BYTES_def Let_def)
  have br: "bytesReceived (st (streamChannelToDisplay short_peer 0x10 3 [])) = 3"
    by (simp add: short_peer_def streamChannelToDisplay_def TOTAL_BYTES_def read_chunk_def
        pad_channel_fields Let_def)
  have stream: "concat (map arrived (polls short_peer)) = [0x00, 0x33, 0xCC]"
    by (simp add: short_peer_def)
  from channel_counter_sum [OF nt] nt show ?thesis
    by (simp add: br stream)
qed

text \<open>
  C6, as stated: a stream whose bytes first arrive at 29 seconds does not time out. The
  deadline of the sketch runs from the start of the loop and is not reset by received
  bytes. Here the first byte arrives (and is read) 29 s after the start, the peer stays
  connected without sending more, and the poll made 30.01 s after the start aborts the
  stream with a timeout.
\<close>

theorem stream_timeout_counterexample:
  "arrived (polls late_peer ! 1) = [0x33]
   \<and> millis (polls late_peer ! 1) - startTime late_peer = 29000
   \<and> read_bytes (trace (st (streamChannelToDisplay late_peer 0x10 (getSize late_peer) [])))
       = [0x33]
   \<and> timedOut (streamChannelToDisplay late_peer 0x10 (getSize late_peer) [])"
  by (simp add: late_peer_def streamChannelToDisplay_def Let_def read_chunk_def
      EPD_SendCommand_def EPD_SendData_def count_byte_def TOTAL_BYTES_def)

text \<open>
  C6, amended: the stream aborts with a timeout at a poll inside the loop that finds no
  bytes available more than 30000 ms after the start of the loop, whatever has been
  received before (first conjunct, for any state \<open>s\<close> of the loop). So (second conjunct)
  a connected stream with a positive declared length that has delivered nothing when
  such a poll is made times out, returns false and writes nothing after the prepare
  command. A poll that finds bytes available never times out, whatever the time: (third
  conjunct) a stream none of whose empty-handed polls is later than 30000 ms does not
  time out, and (fourth conjunct) a stream all of whose bytes up to the limit arrive
  together, at 29 s or at any other time after polls within the deadline, does not time
  out. Exactly (fifth conjunct): the stream times out if and only if some iteration that
  the loop makes (the polls before it all found the connection alive and left the loop
  running in state \<open>s1\<close>, fewer bytes received than both limits) finds the receive
  buffer empty, no new bytes, and more than 30000 ms elapsed. So a stream whose bytes
  first arrive at 29 s does not time out as long as no later iteration past the 30 s
  mark finds the receive buffer empty, and times out at the first one that does.
\<close>

theorem stream_timeout:
  fixes http c E tr
  defines "r \<equiv> streamChannelToDisplay http c E tr"
    and "t0 \<equiv> startTime http"
  shows "(connected p \<and> bytesReceived s < E \<and> bytesReceived s < TOTAL_BYTES
          \<and> rxbuf s = [] \<and> arrived p = [] \<and> millis p - t0 > 30000
          \<longrightarrow> stream_loop E t0 (p # rest) s = (TimedOut, s))
       \<and> (0 < E \<and> polls http = pre @ p # rest
          \<and> (\<forall>q\<in>set pre. connected q \<and> arrived q = [] \<and> millis q - t0 \<le> 30000)
          \<and> connected p \<and> arrived p = [] \<and> millis p - t0 > 30000
          \<longrightarrow> timedOut r \<and> \<not> ret r \<and> trace (st r) = tr @ [Cmd c])
       \<and> ((\<forall>q\<in>set (polls http). arrived q = [] \<longrightarrow> millis q - t0 \<le> 30000)
          \<longrightarrow> \<not> timedOut r)
       \<and> (polls http = pre @ p # rest
          \<and> (\<forall>q\<in>set pre. connected q \<and> arrived q = [] \<and> millis q - t0 \<le> 30000)
          \<and> nat (min E TOTAL_BYTES) \<le> length (arrived p)
          \<longrightarrow> \<not> timedOut r)
       \<and> (timedOut r \<longleftrightarrow>
            (\<exists>made p1 later s1.
                polls http = made @ p1 # later \<and> (\<forall>q\<in>set made. connected q)
                \<and> stream_loop E t0 made
                      \<lparr>rxbuf = [], bytesReceived = 0, blackBytes = 0, whiteBytes = 0,
                         redPrepBytes = 0, otherBytes = 0, trace = EPD_SendCommand c tr\<rparr>
                    = (Finished, s1)
                \<and> connected p1 \<and> bytesReceived s1 < E \<and> bytesReceived s1 < TOTAL_BYTES
                \<and> rxbuf s1 = [] \<and> arrived p1 = [] \<and> millis p1 - t0 > 30000))"
proof -
  define s0 where
    "s0 = \<lparr>rxbuf = [], bytesReceived = 0, blackBytes = 0, whiteBytes = 0,
            redPrepBytes = 0, otherBytes = 0, trace = EPD_SendCommand c tr\<rparr>"
  have s0: "rxbuf s0 = []" "bytesReceived s0 = 0" "trace s0 = tr @ [Cmd c]"
    by (simp_all add: s0_def EPD_SendCommand_def)
  have T: "0 < TOTAL_BYTES" by (simp add: TOTAL_BYTES_def)
  have first: "timedOut r \<and> \<not> ret r \<and> trace (st r) = tr @ [Cmd c]"
    if E: "0 < E" and split: "polls http = pre @ p # rest"
      and idle: "\<forall>q\<in>set pre. connected q \<and> arrived q = [] \<and> millis q - t0 \<le> 30000"
      and p: "connected p" "arrived p = []" "millis p - t0 > 30000"
  proof -
    have "stream_loop E t0 (pre @ p # rest) s0 = stream_loop E t0 (p # rest) s0"
      using s0(1) E T idle by (intro stream_loop_idle_prefix) (simp_all add: s0(2))
    also have "\<dots> = (TimedOut, s0)"
      using p E T by (simp add: s0)
    finally have "stream_loop E (startTime http) (polls http) s0 = (TimedOut, s0)"
      by (simp add: split t0_def)
    then have "r = \<lparr>ret = False, timedOut = True, noBlackWarning = False, st = s0\<rparr>"
      by (simp add: r_def streamChannelToDisplay_def s0_def)
    then show ?thesis by (simp add: s0)
  qed
  have second: "\<not> timedOut r"
    if "\<forall>q\<in>set (polls http). arrived q = [] \<longrightarrow> millis q - t0 \<le> 30000"
  proof -
    from that have "fst (stream_loop E (startTime http) (polls http) s0) = Finished"
      unfolding t0_def by (rule stream_loop_no_timeout)
    then show ?thesis by (simp add: r_def timedOut_iff s0_def)
  qed
  have third: "\<not> timedOut r"
    if split: "polls http = pre @ p # rest"
      and idle: "\<forall>q\<in>set pre. connected q \<and> arrived q = [] \<and> millis q - t0 \<le> 30000"
      and all: "nat (min E TOTAL_BYTES) \<le> length (arrived p)"
  proof -
    have "fst (stream_loop E t0 (pre @ p # rest) s0) = Finished"
    proof (cases "0 < E")
      case True
      have "stream_loop E t0 (pre @ p # rest) s0 = stream_loop E t0 (p # rest) s0"
        using s0(1) True T idle by (intro stream_loop_idle_prefix) (simp_all add: s0(2))
      moreover have "fst (stream_loop E t0 (p # rest) s0) = Finished"
        using all by (intro stream_loop_arrived_all) (simp add: s0)
      ultimately show ?thesis by simp
    next
      case False
      then have "stream_loop E t0 (pre @ p # rest) s0 = (Finished, s0)"
        by (intro stream_loop_limit_reached) (simp add: s0)
      then show ?thesis by simp
    qed
    then show ?thesis by (simp add: r_def timedOut_iff s0_def split t0_def)
  qed
  have step: "stream_loop E t0 (p # rest) s = (TimedOut, s)"
    if "connected p" "bytesReceived s < E" "bytesReceived s < TOTAL_BYTES"
      "rxbuf s = []" "arrived p = []" "millis p - t0 > 30000"
    using that by simp
  have exact: "timedOut r \<longleftrightarrow>
            (\<exists>made p1 later s1.
                polls http = made @ p1 # later \<and> (\<forall>q\<in>set made. connected q)
                \<and> stream_loop E t0 made
                      \<lparr>rxbuf = [], bytesReceived = 0, blackBytes = 0, whiteBytes = 0,
                         redPrepBytes = 0, otherBytes = 0, trace = EPD_SendCommand c tr\<rparr>
                    = (Finished, s1)
                \<and> connected p1 \<and> bytesReceived s1 < E \<and> bytesReceived s1 < TOTAL_BYTES
                \<and> rxbuf s1 = [] \<and> arrived p1 = [] \<and> millis p1 - t0 > 30000)"
    unfolding r_def timedOut_iff t0_def by (rule stream_loop_timeout_iff)
  show ?thesis
    apply (intro conjI impI)
    subgoal using step by blast
    subgoal using first by blast
    subgoal using first by blast
    subgoal using first by blast
    subgoal using second by blast
    subgoal using third by blast
    subgoal by (rule exact)
    done
qed

text \<open>
  C6, instances: a loop that has received one byte and then polls empty-handed 30.01 s
  after the start times out; the silent peer times out; the peer whose three bytes are
  there at the first poll does not; the peer whose three declared bytes arrive together
  at 29 s does not; and the peer that delivers 1025 of 1026 declared bytes at 29 s does
  not either: the poll made at 30.01 s brings no new bytes but finds one byte left in
  the receive buffer.
\<close>

theorem stream_timeout_witness:
  "stream_loop 122880 0 [\<lparr>connected = True, arrived = [], millis = 30010\<rparr>]
     \<lparr>rxbuf = [], bytesReceived = 1, blackBytes = 0, whiteBytes = 1, redPrepBytes = 0,
        otherBytes = 0, trace = [Cmd 0x10, StreamRead [0x33], Data 0x33]\<rparr>
   = (TimedOut, \<lparr>rxbuf = [], bytesReceived = 1, blackBytes = 0, whiteBytes = 1,
        redPrepBytes = 0, otherBytes = 0, trace = [Cmd 0x10, StreamRead [0x33], Data 0x33]\<rparr>)
   \<and> timedOut (streamChannelToDisplay silent_peer 0x10 (getSize silent_peer) [])
   \<and> \<not> timedOut (streamChannelToDisplay short_peer 0x10 (getSize short_peer) [])
   \<and> \<not> timedOut (streamChannelToDisplay late_complete_peer 0x10
                      (getSize late_complete_peer) [])
   \<and> \<not> timedOut (streamChannelToDisplay leftover_peer 0x10 (getSize leftover_peer) [])"
proof -
  have "stream_loop 122880 0 [\<lparr>connected = True, arrived = [], millis = 30010\<rparr>]
     \<lparr>rxbuf = [], bytesReceived = 1, blackBytes = 0, whiteBytes = 1, redPrepBytes = 0,
        otherBytes = 0, trace = [Cmd 0x10, StreamRead [0x33], Data 0x33]\<rparr>
   = (TimedOut, \<lparr>rxbuf = [], bytesReceived = 1, blackBytes = 0, whiteBytes = 1,
        redPrepBytes = 0, otherBytes = 0, trace = [Cmd 0x10, StreamRead [0x33], Data 0x33]\<rparr>)"
    using stream_timeout [where http = late_peer and E = 122880
        and p = "\<lparr>connected = True, arrived = [], millis = 30010\<rparr>" and rest = "[]"
        and s = "\<lparr>rxbuf = [], bytesReceived = 1, blackBytes = 0, whiteBytes = 1,
                  redPrepBytes = 0, otherBytes = 0,
                  trace = [Cmd 0x10, StreamRead [0x33], Data 0x33]\<rparr>",
        THEN conjunct1]
    by (simp add: late_peer_def TOTAL_BYTES_def)
  moreover
  have "timedOut (streamChannelToDisplay silent_peer 0x10 (getSize silent_peer) [])"
    using stream_timeout [where http = silent_peer and c = "0x10"
        and E = "getSize silent_peer" and tr = "[]" and pre = "[]"
        and p = "\<lparr>connected = True, arrived = [], millis = 31001\<rparr>" and rest = "[]",
        THEN conjunct2, THEN conjunct1]
    by (simp add: silent_peer_def)
  moreover
  have "\<not> timedOut (streamChannelToDisplay short_peer 0x10 (getSize short_peer) [])"
    using stream_timeout [where http = short_peer and c = "0x10"
        and E = "getSize short_peer" and tr = "[]", THEN conjunct2, THEN conjunct2,
        THEN conjunct1]
    by (simp add: short_peer_def)
  moreover
  have "\<not> timedOut (streamChannelToDisplay late_complete_peer 0x10
                      (getSize late_complete_peer) [])"
    using stream_timeout [where http = late_complete_peer and c = "0x10"
        and E = "getSize late_complete_peer" and tr = "[]"
        and pre = "[\<lparr>connected = True, arrived = [], millis = 10000\<rparr>]"
        and p = "\<lparr>connected = True, arrived = [0x00, 0x33, 0xCC], millis = 29000\<rparr>"
        and rest = "[\<lparr>connected = True, arrived = [], millis = 30010\<rparr>]",
        THEN conjunct2, THEN conjunct2, THEN conjunct2, THEN conjunct1]
    by (simp add: late_complete_peer_def TOTAL_BYTES_def)
  moreover
  have "\<not> timedOut (streamChannelToDisplay leftover_peer 0x10 (getSize leftover_peer) [])"
  proof
    let ?a = "\<lparr>connected = True, arrived = replicate 1025 (0x33 :: byte), millis = 29000\<rparr>"
    let ?b = "\<lparr>connected = True, arrived = ([] :: byte list), millis = 30010\<rparr>"
    let ?s0 = "\<lparr>rxbuf = [], bytesReceived = 0, blackBytes = 0, whiteBytes = 0,
                redPrepBytes = 0, otherBytes = 0, trace = EPD_SendCommand 0x10 []\<rparr>"
    assume "timedOut (streamChannelToDisplay leftover_peer 0x10 (getSize leftover_peer) [])"
    from stream_timeout [where http = leftover_peer and c = "0x10"
        and E = "getSize leftover_peer" and tr = "[]",
        THEN conjunct2, THEN conjunct2, THEN conjunct2, THEN conjunct2, THEN iffD1, OF this]
    obtain made p1 later s1 where split:
        "polls leftover_peer = made @ p1 # later"
        "stream_loop (getSize leftover_peer) (startTime leftover_peer) made ?s0 = (Finished, s1)"
        "rxbuf s1 = []" "arrived p1 = []"
      by blast
    from split(1) have "made = [] \<and> p1 = ?a \<or> made = [?a] \<and> p1 = ?b"
      by (auto simp: leftover_peer_def Cons_eq_append_conv)
    then show False
    proof
      assume "made = [] \<and> p1 = ?a"
      with split(4) show False by simp
    next
      assume "made = [?a] \<and> p1 = ?b"
      with split(2) have "s1 = read_chunk 1026 (replicate 1025 0x33) ?s0"
        by (simp add: leftover_peer_def TOTAL_BYTES_def)
      then have "rxbuf s1 = drop 1024 (replicate 1025 0x33)"
        by (simp add: read_chunk_def Let_def TOTAL_BYTES_def)
      with split(3) show False by simp
    qed
  qed
  ultimately show ?thesis by blast
qed

subsection \<open>The update orchestrator\<close>

text \<open>
  C4. If the GET of the black/white channel returns a status other than
  \<open>HTTP_CODE_OK\<close>, the update returns failure right after that request: no request for
  the red channel is issued and the refresh command 0x12 is not sent.
\<close>

theorem bw_failure_aborts:
  assumes "httpCode bw \<noteq> HTTP_CODE_OK"
  shows "downloadAndDisplayCalendar wifi bw red tr
           = (False, if wifi then EPD_7in5_V1_Init tr @ [HttpGet calendar_raw_url] else tr)
       \<and> HttpGet calendar_red_url \<notin> set (snd (downloadAndDisplayCalendar wifi bw red []))
       \<and> Cmd 0x12 \<notin> set (snd (downloadAndDisplayCalendar wifi bw red []))"
proof -
  have run: "downloadAndDisplayCalendar wifi bw red tr'
           = (False, if wifi then EPD_7in5_V1_Init tr' @ [HttpGet calendar_raw_url] else tr')"
    for tr'
    using assms by (simp add: downloadAndDisplayCalendar_def downloadAndStreamBW_def Let_def)
  have "calendar_red_url \<noteq> calendar_raw_url"
    by (simp add: calendar_red_url_def calendar_raw_url_def)
  then show ?thesis
    by (simp add: run HttpGet_in_set Cmd_in_set init_projections)
qed

text \<open>C4, an instance: the black/white request is answered with 404.\<close>

theorem bw_failure_aborts_witness:
  "downloadAndDisplayCalendar True failed_peer short_peer []
     = (False, EPD_7in5_V1_Init [] @ [HttpGet calendar_raw_url])
   \<and> HttpGet calendar_red_url \<notin> set (snd (downloadAndDisplayCalendar True failed_peer short_peer []))
   \<and> Cmd 0x12 \<notin> set (snd (downloadAndDisplayCalendar True failed_peer short_peer []))"
proof -
  have "httpCode failed_peer \<noteq> HTTP_CODE_OK"
    by (simp add: failed_peer_def HTTP_CODE_OK_def)
  then show ?thesis
    by (rule bw_failure_aborts [of failed_peer True short_peer "[]", unfolded if_True])
qed

text \<open>
  C3. If the GET of the red channel returns a status other than \<open>HTTP_CODE_OK\<close>, the
  stream decoder is not run: after the red prepare command 0x13 exactly \<open>TOTAL_BYTES\<close>
  bytes 0xFF are written, nothing is read from the peer, the function returns true, and
  an update whose black/white channel succeeded goes on to the refresh command and
  returns success.
\<close>

theorem red_failure_fallback:
  assumes "httpCode red \<noteq> HTTP_CODE_OK"
  shows "downloadAndStreamRed red tr
           = (True, tr @ [HttpGet calendar_red_url, Cmd 0x13]
                       @ replicate (nat TOTAL_BYTES) (Data 0xFF))
       \<and> read_bytes (snd (downloadAndStreamRed red tr)) = read_bytes tr
       \<and> data_bytes (snd (downloadAndStreamRed red tr))
           = data_bytes tr @ replicate (nat TOTAL_BYTES) 0xFF
       \<and> (fst (downloadAndStreamBW bw (EPD_7in5_V1_Init tr0)) \<longrightarrow>
            downloadAndDisplayCalendar True bw red tr0
            = (True, snd (downloadAndStreamBW bw (EPD_7in5_V1_Init tr0))
                     @ [HttpGet calendar_red_url, Cmd 0x13]
                     @ replicate (nat TOTAL_BYTES) (Data 0xFF) @ [Cmd 0x12]))"
proof -
  have red: "downloadAndStreamRed red tr'
           = (True, tr' @ [HttpGet calendar_red_url, Cmd 0x13]
                        @ replicate (nat TOTAL_BYTES) (Data 0xFF))" for tr'
    using assms by (simp add: downloadAndStreamRed_def send_loop_const EPD_SendCommand_def)
  have "downloadAndDisplayCalendar True bw red tr0
            = (True, snd (downloadAndStreamBW bw (EPD_7in5_V1_Init tr0))
                     @ [HttpGet calendar_red_url, Cmd 0x13]
                     @ replicate (nat TOTAL_BYTES) (Data 0xFF) @ [Cmd 0x12])"
    if "fst (downloadAndStreamBW bw (EPD_7in5_V1_Init tr0))"
  proof -
    from that have "downloadAndStreamBW bw (EPD_7in5_V1_Init tr0)
        = (True, snd (downloadAndStreamBW bw (EPD_7in5_V1_Init tr0)))"
      by (cases "downloadAndStreamBW bw (EPD_7in5_V1_Init tr0)") simp
    from update_refreshed [OF this red] show ?thesis by simp
  qed
  then show ?thesis by (simp add: red)
qed

text \<open>
  C3, an instance: the black/white channel delivers three bytes, the red request is
  answered with 404.
\<close>

theorem red_failure_fallback_witness:
  "downloadAndStreamRed failed_peer [] 
     = (True, [HttpGet calendar_red_url, Cmd 0x13] @ replicate (nat TOTAL_BYTES) (Data 0xFF))
   \<and> read_bytes (snd (downloadAndStreamRed failed_peer [])) = []
   \<and> downloadAndDisplayCalendar True short_peer failed_peer []
       = (True, snd (downloadAndStreamBW short_peer (EPD_7in5_V1_Init []))
                @ [HttpGet calendar_red_url, Cmd 0x13]
                @ replicate (nat TOTAL_BYTES) (Data 0xFF) @ [Cmd 0x12])"
proof -
  have "httpCode failed_peer \<noteq> HTTP_CODE_OK"
    by (simp add: failed_peer_def HTTP_CODE_OK_def)
  from red_failure_fallback [OF this, of "[]" short_peer "[]"] short_peer_bw_ok
  show ?thesis by simp
qed

text \<open>
  C2, as stated: when zero bytes are received for the black/white channel the caller
  proceeds to the red channel and to the refresh. The sketch returns
  \<open>bytesReceived > 0\<close> from \<open>streamChannelToDisplay\<close>, so the update stops. Here the
  black/white peer answers 200 and closes without sending a byte, the red peer is ready
  to deliver, and the update returns failure without a red request and without the
  refresh command.
\<close>

theorem bw_zero_bytes_counterexample:
  "bytesReceived (st (streamChannelToDisplay closed_peer 0x10 (getSize closed_peer)
                        (EPD_7in5_V1_Init [] @ [HttpGet calendar_raw_url]))) = 0
   \<and> \<not> timedOut (streamChannelToDisplay closed_peer 0x10 (getSize closed_peer)
                     (EPD_7in5_V1_Init [] @ [HttpGet calendar_raw_url]))
   \<and> \<not> fst (downloadAndDisplayCalendar True closed_peer short_peer [])
   \<and> HttpGet calendar_red_url \<notin> set (snd (downloadAndDisplayCalendar True closed_peer short_peer []))
   \<and> Cmd 0x12 \<notin> set (snd (downloadAndDisplayCalendar True closed_peer short_peer []))"
proof -
  have r: "streamChannelToDisplay closed_peer 0x10 (getSize closed_peer) tr
      = \<lparr>ret = False, timedOut = False, noBlackWarning = True,
         st = \<lparr>rxbuf = [], bytesReceived = 0, blackBytes = 0, whiteBytes = TOTAL_BYTES,
                redPrepBytes = 0, otherBytes = 0,
                trace = tr @ Cmd 0x10 # replicate (nat TOTAL_BYTES) (Data 0x33)\<rparr>\<rparr>" for tr
    by (simp add: closed_peer_def streamChannelToDisplay_def Let_def pad_channel_def
        send_loop_const EPD_SendCommand_def) (simp add: TOTAL_BYTES_def)
  have bw: "downloadAndStreamBW closed_peer tr
      = (False, tr @ HttpGet calendar_raw_url # Cmd 0x10 # replicate (nat TOTAL_BYTES) (Data 0x33))"
    for tr
    by (simp add: downloadAndStreamBW_def Let_def r) (simp add: closed_peer_def HTTP_CODE_OK_def)
  have upd: "downloadAndDisplayCalendar True closed_peer short_peer []
      = (False, EPD_7in5_V1_Init [] @ HttpGet calendar_raw_url # Cmd 0x10
                # replicate (nat TOTAL_BYTES) (Data 0x33))"
    by (rule update_bw_failed) (rule bw)
  have "calendar_red_url \<noteq> calendar_raw_url"
    by (simp add: calendar_red_url_def calendar_raw_url_def)
  then show ?thesis
    by (simp add: r upd HttpGet_in_set Cmd_in_set init_projections)
qed

text \<open>
  C2, amended: if the black/white GET succeeds and the stream ends without a timeout
  having received zero bytes, the transfer still completes, \<open>TOTAL_BYTES\<close> bytes 0x33
  being written after the prepare command, and the no-black-pixels warning is printed;
  but \<open>streamChannelToDisplay\<close> returns false, and the update returns failure at that
  point: its trace ends with the padding, with no red-channel request and no refresh.
\<close>

theorem bw_zero_bytes:
  fixes bw red tr
  defines "r \<equiv> streamChannelToDisplay bw 0x10 (getSize bw)
                 (EPD_7in5_V1_Init tr @ [HttpGet calendar_raw_url])"
  assumes "httpCode bw = HTTP_CODE_OK" and "\<not> timedOut r" and "bytesReceived (st r) = 0"
  shows "trace (st r) = EPD_7in5_V1_Init tr @ [HttpGet calendar_raw_url, Cmd 0x10]
                          @ replicate (nat TOTAL_BYTES) (Data 0x33)
       \<and> noBlackWarning r \<and> \<not> ret r
       \<and> downloadAndDisplayCalendar True bw red tr = (False, trace (st r))"
proof -
  note run = stream_channel_facts [of bw "0x10" "getSize bw"
      "EPD_7in5_V1_Init tr @ [HttpGet calendar_raw_url]", folded r_def]
  from run(4) assms(3,4) have tr: "trace (st r)
      = EPD_7in5_V1_Init tr @ [HttpGet calendar_raw_url, Cmd 0x10]
        @ replicate (nat TOTAL_BYTES) (Data 0x33)"
    by auto
  from run(10) assms(3,4) have warn: "noBlackWarning r" by simp
  from run(9) assms(4) have nret: "\<not> ret r" by simp
  from assms(2) nret have "downloadAndStreamBW bw (EPD_7in5_V1_Init tr) = (False, trace (st r))"
    by (simp add: downloadAndStreamBW_def Let_def r_def)
  then have "downloadAndDisplayCalendar True bw red tr = (False, trace (st r))"
    by (rule update_bw_failed)
  with tr warn nret show ?thesis by blast
qed

text \<open>
  C2, an instance: the black/white peer declares a length of zero, so that nothing is
  read; the panel gets the full padding and the update returns failure.
\<close>

theorem bw_zero_bytes_witness:
  "downloadAndDisplayCalendar True zero_length_peer short_peer []
     = (False, EPD_7in5_V1_Init [] @ [HttpGet calendar_raw_url, Cmd 0x10]
               @ replicate (nat TOTAL_BYTES) (Data 0x33))
   \<and> noBlackWarning (streamChannelToDisplay zero_length_peer 0x10 (getSize zero_length_peer)
                       (EPD_7in5_V1_Init [] @ [HttpGet calendar_raw_url]))"
proof -
  have 1: "httpCode zero_length_peer = HTTP_CODE_OK"
    by (simp add: zero_length_peer_def HTTP_CODE_OK_def)
  have 2: "\<not> timedOut (streamChannelToDisplay zero_length_peer 0x10 (getSize zero_length_peer)
                          (EPD_7in5_V1_Init [] @ [HttpGet calendar_raw_url]))"
    by (simp add: zero_length_peer_def streamChannelToDisplay_def Let_def)
  have 3: "bytesReceived (st (streamChannelToDisplay zero_length_peer 0x10
             (getSize zero_length_peer) (EPD_7in5_V1_Init [] @ [HttpGet calendar_raw_url]))) = 0"
    by (simp add: zero_length_peer_def streamChannelToDisplay_def Let_def pad_channel_fields)
  from bw_zero_bytes [OF 1 2 3, of short_peer] show ?thesis by simp
qed

text \<open>
  C10. If the red GET succeeds but the red stream then times out or delivers zero bytes,
  \<open>streamChannelToDisplay\<close> returns false and the update returns failure with no refresh
  command issued, although the black/white channel's \<open>TOTAL_BYTES\<close> data bytes have
  been written to the panel before.
\<close>

theorem red_stream_failure_aborts:
  fixes bw red tr
  defines "tr2 \<equiv> snd (downloadAndStreamBW bw (EPD_7in5_V1_Init tr))"
  defines "r \<equiv> streamChannelToDisplay red 0x13 (getSize red) (tr2 @ [HttpGet calendar_red_url])"
  assumes "fst (downloadAndStreamBW bw (EPD_7in5_V1_Init tr))"
    and "httpCode red = HTTP_CODE_OK"
    and "timedOut r \<or> bytesReceived (st r) = 0"
  shows "\<not> ret r
       \<and> downloadAndDisplayCalendar True bw red tr = (False, trace (st r))
       \<and> (\<exists>X Z. trace (st r) = EPD_7in5_V1_Init tr @ HttpGet calendar_raw_url # Cmd 0x10 # X
                                  @ HttpGet calendar_red_url # Cmd 0x13 # Z
                 \<and> commands X = [] \<and> length (data_bytes X) = nat TOTAL_BYTES
                 \<and> commands Z = [])
       \<and> commands (trace (st r)) = commands (EPD_7in5_V1_Init tr) @ [0x10, 0x13]
       \<and> (Cmd 0x12 \<in> set (trace (st r)) \<longrightarrow> Cmd 0x12 \<in> set tr)"
proof -
  note run = stream_channel_facts [of red "0x13" "getSize red"
      "tr2 @ [HttpGet calendar_red_url]", folded r_def]
  from run(9) assms(5) have nret: "\<not> ret r" by auto
  from assms(3) have bw: "downloadAndStreamBW bw (EPD_7in5_V1_Init tr) = (True, tr2)"
    unfolding tr2_def by (cases "downloadAndStreamBW bw (EPD_7in5_V1_Init tr)") simp
  from assms(4) nret have "downloadAndStreamRed red tr2 = (False, trace (st r))"
    by (simp add: downloadAndStreamRed_def Let_def r_def)
  with bw have upd: "downloadAndDisplayCalendar True bw red tr = (False, trace (st r))"
    by (rule update_red_failed)
  from bw_shape [of bw "EPD_7in5_V1_Init tr"] bw obtain X where X:
      "tr2 = EPD_7in5_V1_Init tr @ HttpGet calendar_raw_url # Cmd 0x10 # X"
      "commands X = []" "length (data_bytes X) = nat TOTAL_BYTES"
    by auto
  from stream_shape [of red "0x13" "getSize red" "tr2 @ [HttpGet calendar_red_url]"]
  obtain Z where Z: "trace (st r) = (tr2 @ [HttpGet calendar_red_url]) @ Cmd 0x13 # Z"
      "commands Z = []"
    unfolding r_def by blast
  have shape: "trace (st r) = EPD_7in5_V1_Init tr @ HttpGet calendar_raw_url # Cmd 0x10 # X
                                  @ HttpGet calendar_red_url # Cmd 0x13 # Z"
    by (simp add: Z(1) X(1))
  have cmds: "commands (trace (st r)) = commands (EPD_7in5_V1_Init tr) @ [0x10, 0x13]"
    by (simp add: shape X(2) Z(2))
  have "commands (EPD_7in5_V1_Init tr) = commands tr @ commands (EPD_7in5_V1_Init [])"
    by (subst init_append) simp
  with cmds have no12: "Cmd 0x12 \<in> set (trace (st r)) \<longrightarrow> Cmd 0x12 \<in> set tr"
    by (simp add: Cmd_in_set init_projections)
  from X(2,3) Z(2) shape have "\<exists>X Z. trace (st r)
        = EPD_7in5_V1_Init tr @ HttpGet calendar_raw_url # Cmd 0x10 # X
          @ HttpGet calendar_red_url # Cmd 0x13 # Z
      \<and> commands X = [] \<and> length (data_bytes X) = nat TOTAL_BYTES \<and> commands Z = []"
    by blast
  with nret upd cmds no12 show ?thesis by blast
qed

text \<open>
  C10, an instance: the black/white channel delivers three bytes and is padded; the red
  peer answers 200 and then sends nothing for more than 30 s.
\<close>

theorem red_stream_failure_aborts_witness:
  "\<not> fst (downloadAndDisplayCalendar True short_peer silent_peer [])
   \<and> Cmd 0x12 \<notin> set (snd (downloadAndDisplayCalendar True short_peer silent_peer []))"
proof -
  have 1: "fst (downloadAndStreamBW short_peer (EPD_7in5_V1_Init []))"
    by (rule short_peer_bw_ok)
  have 2: "httpCode silent_peer = HTTP_CODE_OK"
    by (simp add: silent_peer_def HTTP_CODE_OK_def)
  have 3: "timedOut (streamChannelToDisplay silent_peer 0x13 (getSize silent_peer)
             (snd (downloadAndStreamBW short_peer (EPD_7in5_V1_Init []))
              @ [HttpGet calendar_red_url]))"
    by (simp add: timedOut_iff) (simp add: silent_peer_def TOTAL_BYTES_def)
  from red_stream_failure_aborts [OF 1 2 disjI1 [OF 3]] show ?thesis by simp
qed

text \<open>
  C8. In every update of the scheduled firmware the red prepare command 0x13, and with it
  any red data byte, comes only after the black/white prepare command and all
  \<open>TOTAL_BYTES\<close> data bytes of the black/white channel; and the refresh command 0x12 is
  issued only by an update that succeeds, as the last event, after both channels have
  had their \<open>TOTAL_BYTES\<close> data bytes written (streamed, padded or filled by the
  fallback). The pattern demo has the same order: 0x10, \<open>TOTAL_BYTES\<close> black/white data
  bytes, 0x13, \<open>TOTAL_BYTES\<close> red data bytes, 0x12.
\<close>

theorem update_order:
  fixes wifi bw red getPixelColor
  defines "I \<equiv> EPD_7in5_V1_Init []"
  defines "U \<equiv> downloadAndDisplayCalendar wifi bw red []"
  shows "(Cmd 0x13 \<in> set (snd U) \<longrightarrow>
            (\<exists>X Z. snd U = I @ HttpGet calendar_raw_url # Cmd 0x10 # X
                             @ HttpGet calendar_red_url # Cmd 0x13 # Z
                  \<and> commands X = [] \<and> length (data_bytes X) = nat TOTAL_BYTES
                  \<and> Cmd 0x10 \<notin> set Z \<and> Cmd 0x13 \<notin> set Z))
       \<and> (Cmd 0x12 \<in> set (snd U) \<longrightarrow>
            fst U
            \<and> (\<exists>X Y. snd U = I @ HttpGet calendar_raw_url # Cmd 0x10 # X
                               @ HttpGet calendar_red_url # Cmd 0x13 # Y @ [Cmd 0x12]
                    \<and> commands X = [] \<and> length (data_bytes X) = nat TOTAL_BYTES
                    \<and> commands Y = [] \<and> length (data_bytes Y) = nat TOTAL_BYTES))
       \<and> drawColorPattern getPixelColor []
           = Cmd 0x10 # map (\<lambda>i. Data (bwValue (getPixelColor i))) [0..TOTAL_BYTES - 1]
             @ Cmd 0x13 # map (\<lambda>i. Data (redValue (getPixelColor i))) [0..TOTAL_BYTES - 1]
             @ [Cmd 0x12]
       \<and> length [0..TOTAL_BYTES - 1] = nat TOTAL_BYTES"
proof -
  let ?red_started = "\<exists>X Z. snd U = I @ HttpGet calendar_raw_url # Cmd 0x10 # X
                             @ HttpGet calendar_red_url # Cmd 0x13 # Z
                  \<and> commands X = [] \<and> length (data_bytes X) = nat TOTAL_BYTES
                  \<and> Cmd 0x10 \<notin> set Z \<and> Cmd 0x13 \<notin> set Z"
  let ?refreshed = "fst U
            \<and> (\<exists>X Y. snd U = I @ HttpGet calendar_raw_url # Cmd 0x10 # X
                               @ HttpGet calendar_red_url # Cmd 0x13 # Y @ [Cmd 0x12]
                    \<and> commands X = [] \<and> length (data_bytes X) = nat TOTAL_BYTES
                    \<and> commands Y = [] \<and> length (data_bytes Y) = nat TOTAL_BYTES)"
  have cI: "commands I = [0x01, 0x00, 0x06, 0x04, 0x30, 0x41, 0x50, 0x60, 0x61, 0x82, 0xE5, 0x10]"
    unfolding I_def by (rule init_projections)
  have scheduled: "(Cmd 0x13 \<in> set (snd U) \<longrightarrow> ?red_started)
                 \<and> (Cmd 0x12 \<in> set (snd U) \<longrightarrow> ?refreshed)"
  proof (cases wifi)
    case False
    then have "U = (False, [])" by (simp add: U_def downloadAndDisplayCalendar_def)
    then show ?thesis by simp
  next
    case True
    then have Ueq: "U = downloadAndDisplayCalendar True bw red []" by (simp add: U_def)
    note shape = update_shape [of bw red, folded I_def, folded Ueq]
    from shape consider
        (bw_get) "U = (False, I @ [HttpGet calendar_raw_url])"
      | (bw_stream) X where "U = (False, I @ HttpGet calendar_raw_url # Cmd 0x10 # X)"
          "commands X = []"
      | (red_failed) X Z where
          "U = (False, I @ HttpGet calendar_raw_url # Cmd 0x10 # X
                       @ HttpGet calendar_red_url # Cmd 0x13 # Z)"
          "commands X = []" "length (data_bytes X) = nat TOTAL_BYTES" "commands Z = []"
      | (refreshed) X Y where
          "U = (True, I @ HttpGet calendar_raw_url # Cmd 0x10 # X
                      @ HttpGet calendar_red_url # Cmd 0x13 # Y @ [Cmd 0x12])"
          "commands X = []" "length (data_bytes X) = nat TOTAL_BYTES"
          "commands Y = []" "length (data_bytes Y) = nat TOTAL_BYTES"
      by blast
    then show ?thesis
    proof cases
      case bw_get
      then have "commands (snd U) = commands I" by simp
      then show ?thesis by (simp add: Cmd_in_set cI)
    next
      case bw_stream
      then have "commands (snd U) = commands I @ [0x10]" by simp
      then show ?thesis by (simp add: Cmd_in_set cI)
    next
      case red_failed
      then have "commands (snd U) = commands I @ [0x10, 0x13]" by simp
      then have no12: "Cmd 0x12 \<notin> set (snd U)" by (simp add: Cmd_in_set cI)
      from red_failed(4) have "Cmd 0x10 \<notin> set Z" "Cmd 0x13 \<notin> set Z"
        by (simp_all add: Cmd_in_set)
      with red_failed(1-3) have ?red_started by auto
      with no12 show ?thesis by blast
    next
      case refreshed
      from refreshed(4) have "Cmd 0x10 \<notin> set (Y @ [Cmd 0x12])" "Cmd 0x13 \<notin> set (Y @ [Cmd 0x12])"
        by (simp_all add: Cmd_in_set)
      with refreshed(1-3) have 1: ?red_started
        by (intro exI [of _ X] exI [of _ "Y @ [Cmd 0x12]"]) simp
      from refreshed have 2: ?refreshed
        by (intro conjI exI [of _ X] exI [of _ Y]) simp_all
      from 1 2 show ?thesis by blast
    qed
  qed
  have demo: "drawColorPattern getPixelColor []
           = Cmd 0x10 # map (\<lambda>i. Data (bwValue (getPixelColor i))) [0..TOTAL_BYTES - 1]
             @ Cmd 0x13 # map (\<lambda>i. Data (redValue (getPixelColor i))) [0..TOTAL_BYTES - 1]
             @ [Cmd 0x12]"
    by (simp add: drawColorPattern_def Let_def send_loop_eq EPD_SendCommand_def
        EPD_7IN5_V1_Show_def)
  have len: "length [0..TOTAL_BYTES - 1] = nat TOTAL_BYTES"
    by simp
  from scheduled demo len show ?thesis by blast
qed

text \<open>
  C8, an instance: the black/white channel delivers three bytes and is padded, the red
  request is answered with 404 and the channel is filled by the fallback; the refresh
  command is in the trace, and the trace has the stated form.
\<close>

theorem update_order_witness:
  "Cmd 0x13 \<in> set (snd (downloadAndDisplayCalendar True short_peer failed_peer []))
   \<and> Cmd 0x12 \<in> set (snd (downloadAndDisplayCalendar True short_peer failed_peer []))
   \<and> fst (downloadAndDisplayCalendar True short_peer failed_peer [])
   \<and> (\<exists>X Y. snd (downloadAndDisplayCalendar True short_peer failed_peer [])
             = EPD_7in5_V1_Init [] @ HttpGet calendar_raw_url # Cmd 0x10 # X
               @ HttpGet calendar_red_url # Cmd 0x13 # Y @ [Cmd 0x12]
           \<and> commands X = [] \<and> length (data_bytes X) = nat TOTAL_BYTES
           \<and> commands Y = [] \<and> length (data_bytes Y) = nat TOTAL_BYTES)"
proof -
  let ?tr2 = "snd (downloadAndStreamBW short_peer (EPD_7in5_V1_Init []))"
  have bw: "downloadAndStreamBW short_peer (EPD_7in5_V1_Init []) = (True, ?tr2)"
    using short_peer_bw_ok [of "EPD_7in5_V1_Init []"]
    by (cases "downloadAndStreamBW short_peer (EPD_7in5_V1_Init [])") simp
  have red: "downloadAndStreamRed failed_peer ?tr2
      = (True, ?tr2 @ HttpGet calendar_red_url # Cmd 0x13
                      # replicate (nat TOTAL_BYTES) (Data 0xFF))"
    by (simp add: downloadAndStreamRed_def send_loop_const EPD_SendCommand_def
        failed_peer_def HTTP_CODE_OK_def)
  from update_refreshed [OF bw red]
  have in12: "Cmd 0x12 \<in> set (snd (downloadAndDisplayCalendar True short_peer failed_peer []))"
    and in13: "Cmd 0x13 \<in> set (snd (downloadAndDisplayCalendar True short_peer failed_peer []))"
    by simp_all
  from update_order [of True short_peer failed_peer] in12 in13 show ?thesis by blast
qed

end
